theory Spec2Isabelle
  imports Main "HOL-Library.Sublist" "HOL-Library.AList" "HOL-Library.Multiset"
    "HOL-Library.Char_ord" "HOL-Library.List_Lexorder"
begin

section \<open>Go values: byte strings, integers, errors\<close>

text \<open>
  A Go \<open>string\<close> and a Go \<open>[]byte\<close> are both sequences of bytes; \<open>len\<close> counts bytes.
  Both are modelled as lists of 8-bit characters. Sizes, durations and instants
  (\<open>int64\<close> in the source) are modelled as unbounded integers: the quantities that occur
  (file sizes, nanoseconds) stay far below \<open>2^63\<close>.
\<close>

type_synonym bytes = "char list"

text \<open>
  The error values of the modelled paths: \<open>ErrorsNew m\<close> is \<open>errors.New(m)\<close> or a
  \<open>fmt.Errorf\<close> without \<open>%w\<close>; \<open>Errorf m e\<close> is a \<open>fmt.Errorf\<close> with \<open>%w\<close>, with its formatted
  message \<open>m\<close> and the wrapped error \<open>e\<close>; \<open>RPCError code message\<close> is a
  \<open>*verusrpc.RPCError\<close>; \<open>DomainError code message err status details\<close> is a
  \<open>*domain.Error\<close>.
\<close>

datatype go_error =
    ErrorsNew string
  | Errorf string go_error
  | RPCError int string
  | DomainError string string "go_error option" int "(string \<times> string) list"

text \<open>The verb \<open>%d\<close> and the method \<open>Error()\<close> of each kind of error.\<close>

definition digit_char :: "nat \<Rightarrow> char" where
  "digit_char n = ''0123456789'' ! n"

function show_nat :: "nat \<Rightarrow> string" where
  "show_nat n = (if n < 10 then [digit_char n] else show_nat (n div 10) @ [digit_char (n mod 10)])"
  by pat_completeness auto
termination
  by (relation "measure id") auto

declare show_nat.simps [simp del]

definition show_int :: "int \<Rightarrow> string" where
  "show_int i = (if i < 0 then CHR ''-'' # show_nat (nat (- i)) else show_nat (nat i))"

fun Error_string :: "go_error \<Rightarrow> string" where
  "Error_string (ErrorsNew m) = m"
| "Error_string (Errorf m e) = m"
| "Error_string (RPCError c m) = ''rpc error '' @ show_int c @ '': '' @ m"
| "Error_string (DomainError code msg None st d) = msg"
| "Error_string (DomainError code msg (Some e) st d) = msg @ '': '' @ Error_string e"

text \<open>The sentinel errors of \<open>internal/domain/errors.go\<close> that the modelled paths use.\<close>

definition ErrInvalidInput :: go_error where
  "ErrInvalidInput = ErrorsNew ''invalid input''"

definition ErrCacheMiss :: go_error where
  "ErrCacheMiss = ErrorsNew ''cache miss''"

definition ErrDecompressionFailed :: go_error where
  "ErrDecompressionFailed = ErrorsNew ''decompression failed''"

definition ErrInvalidTXID :: go_error where
  "ErrInvalidTXID = ErrorsNew ''invalid txid''"

definition ErrInvalidEVK :: go_error where
  "ErrInvalidEVK = ErrorsNew ''invalid evk''"

text \<open>\<open>context.Canceled\<close>, the value of \<open>ctx.Err()\<close> of a cancelled context.\<close>

definition context_Canceled :: go_error where
  "context_Canceled = ErrorsNew ''context canceled''"

text \<open>
  \<open>NewError\<close> followed by the \<open>WithDetail\<close> calls of each constructor; the \<open>Details\<close> map
  is an association list in insertion order (all keys of one constructor differ).
\<close>

definition NewInvalidInputError :: "string \<Rightarrow> string \<Rightarrow> go_error" where
  "NewInvalidInputError field reason =
     DomainError ''INVALID_INPUT'' (''invalid input: '' @ reason) (Some ErrInvalidInput) 400
       [(''field'', field), (''reason'', reason)]"

definition NewRPCError :: "string \<Rightarrow> go_error \<Rightarrow> go_error" where
  "NewRPCError method err =
     DomainError ''RPC_ERROR'' (''rpc call failed: '' @ method) (Some err) 502
       [(''method'', method)]"

definition NewDecryptionError :: "string \<Rightarrow> go_error \<Rightarrow> go_error" where
  "NewDecryptionError txid err =
     DomainError ''DECRYPTION_FAILED'' ''failed to decrypt data'' (Some err) 500
       [(''txid'', txid)]"

definition NewChainError :: "string \<Rightarrow> string \<Rightarrow> go_error" where
  "NewChainError chainID reason =
     DomainError ''CHAIN_ERROR'' (''chain error: '' @ reason) None 400
       [(''chain_id'', chainID), (''reason'', reason)]"

definition NewDecompressionError :: "string \<Rightarrow> go_error" where
  "NewDecompressionError reason =
     DomainError ''DECOMPRESSION_FAILED'' (''decompression failed: '' @ reason)
       (Some ErrDecompressionFailed) 500 [(''reason'', reason)]"

text \<open>
  The error translation of the HTTP surface (\<open>FileHandler.writeError\<close>): the status and
  the code written to the client.
\<close>

fun writeError :: "go_error \<Rightarrow> int \<times> string" where
  "writeError (DomainError code msg e st d) = (st, code)"
| "writeError _ = (500, ''INTERNAL_ERROR'')"

section \<open>Requests, files and metadata (\<open>internal/domain/file.go\<close>)\<close>

record FileMetadata =
  Filename :: string
  Size :: int
  ContentType :: string
  Extension :: string
  Hash :: string
  Compressed :: bool
  Encrypted :: bool
  CreatedAt :: "int option"

record File =
  TXID :: string
  ChainID :: string
  Content :: bytes
  Metadata :: "FileMetadata option"
  RetrievedAt :: int

record FileRequest =
  req_TXID :: string
  req_EVK :: string
  req_ChainID :: string
  req_Filename :: string
  req_UseCache :: bool

text \<open>The zero values of the two structs.\<close>

definition zero_FileMetadata :: FileMetadata where
  "zero_FileMetadata = \<lparr>Filename = [], Size = 0, ContentType = [], Extension = [], Hash = [],
     Compressed = False, Encrypted = False, CreatedAt = None\<rparr>"

text \<open>
  The character classes of the four validation patterns. Each pattern is anchored
  (\<open>^...$\<close>) and is one class repeated, so matching is a test on every byte and on
  the length.
\<close>

definition digits :: string where
  "digits = ''0123456789''"

definition lower :: string where
  "lower = ''abcdefghijklmnopqrstuvwxyz''"

definition upper :: string where
  "upper = ''ABCDEFGHIJKLMNOPQRSTUVWXYZ''"

definition alnum :: string where
  "alnum = lower @ upper @ digits"

text \<open>\<open>^[a-fA-F0-9]{64}$\<close>\<close>

definition txidPattern :: "string \<Rightarrow> bool" where
  "txidPattern s \<longleftrightarrow> length s = 64 \<and> list_all (\<lambda>c. c \<in> set (''abcdefABCDEF'' @ digits)) s"

text \<open>\<open>^zxviews[a-zA-Z0-9]{90,}$\<close>\<close>

definition evkPattern :: "string \<Rightarrow> bool" where
  "evkPattern s \<longleftrightarrow> take 7 s = ''zxviews'' \<and> 90 \<le> length (drop 7 s)
     \<and> list_all (\<lambda>c. c \<in> set alnum) (drop 7 s)"

text \<open>\<open>^[a-zA-Z0-9._\-() \[\]]+$\<close>\<close>

definition filenamePattern :: "string \<Rightarrow> bool" where
  "filenamePattern s \<longleftrightarrow> s \<noteq> [] \<and> list_all (\<lambda>c. c \<in> set (alnum @ ''._-() []'')) s"

text \<open>\<open>^[a-zA-Z0-9_\-]+$\<close>\<close>

definition chainIDPattern :: "string \<Rightarrow> bool" where
  "chainIDPattern s \<longleftrightarrow> s \<noteq> [] \<and> list_all (\<lambda>c. c \<in> set (alnum @ ''_-'')) s"

text \<open>\<open>strings.Contains\<close>: the second string occurs in the first as a contiguous run.\<close>

fun strings_Contains :: "string \<Rightarrow> string \<Rightarrow> bool" where
  "strings_Contains [] sub = (sub = [])"
| "strings_Contains (c # s) sub = (prefix sub (c # s) \<or> strings_Contains s sub)"

text \<open>\<open>FileRequest.Validate\<close>; \<open>None\<close> is the \<open>nil\<close> error.\<close>

definition Validate :: "FileRequest \<Rightarrow> go_error option" where
  "Validate r =
    (if req_TXID r = [] then Some (NewInvalidInputError ''txid'' ''txid is required'')
     else if length (req_TXID r) \<noteq> 64
       then Some (NewInvalidInputError ''txid'' ''txid must be exactly 64 characters'')
     else if \<not> txidPattern (req_TXID r)
       then Some (NewInvalidInputError ''txid'' ''txid must be valid hex (0-9, a-f)'')
     else if req_ChainID r = []
       then Some (NewInvalidInputError ''chain_id'' ''chain_id is required'')
     else if length (req_ChainID r) > 32
       then Some (NewInvalidInputError ''chain_id'' ''chain_id too long (max 32 characters)'')
     else if \<not> chainIDPattern (req_ChainID r)
       then Some (NewInvalidInputError ''chain_id'' ''chain_id contains invalid characters'')
     else if req_Filename r \<noteq> [] \<and> length (req_Filename r) > 255
       then Some (NewInvalidInputError ''filename'' ''filename too long (max 255 characters)'')
     else if req_Filename r \<noteq> [] \<and>
         (strings_Contains (req_Filename r) ''..'' \<or> strings_Contains (req_Filename r) ''/''
          \<or> strings_Contains (req_Filename r) [CHR 0x5C])
       then Some (NewInvalidInputError ''filename'' ''filename contains invalid path characters'')
     else if req_Filename r \<noteq> [] \<and> \<not> filenamePattern (req_Filename r)
       then Some (NewInvalidInputError ''filename'' ''filename contains invalid characters'')
     else if req_EVK r \<noteq> [] \<and> (length (req_EVK r) < 95 \<or> length (req_EVK r) > 500)
       then Some (NewInvalidInputError ''evk''
              ''viewing key has invalid length (must be 95-500 characters)'')
     else if req_EVK r \<noteq> [] \<and> \<not> evkPattern (req_EVK r)
       then Some (NewInvalidInputError ''evk''
              (''viewing key has invalid format (must start with '' @ [CHR 0x27] @ ''zxviews''
                 @ [CHR 0x27] @ '')''))
     else None)"

text \<open>\<open>FileRequest.CacheKey\<close>\<close>

definition CacheKey :: "FileRequest \<Rightarrow> string" where
  "CacheKey r =
    (if req_EVK r \<noteq> [] then req_ChainID r @ '':'' @ req_TXID r @ '':encrypted''
     else req_ChainID r @ '':'' @ req_TXID r)"

section \<open>The JSON-RPC client (\<open>pkg/verusrpc/client.go\<close>)\<close>

text \<open>
  The client's retry configuration and its metric counters. The URL, the credentials and
  the HTTP transport do not influence the control flow of \<open>Call\<close>; the node and the network
  are the environment below.
\<close>

record Client =
  maxRetries :: int
  retryDelay :: int
  requestCount :: nat
  errorCount :: nat
  totalDuration :: int

text \<open>A decoded JSON value, as far as \<open>DecryptData\<close> looks into one.\<close>

datatype json = JNull | JString string | JObject "(string \<times> json) list" | JArray "json list"
  | JOther

text \<open>
  The \<open>Response\<close> struct after \<open>json.Unmarshal\<close>: the raw \<open>result\<close> (absent or a value) and
  the \<open>error\<close> object (code and message) when there is one.
\<close>

record Response =
  Result :: "json option"
  Error :: "(int \<times> string) option"

text \<open>
  What one HTTP exchange can do, step by step as \<open>Client.call\<close> observes it: the request
  cannot be marshalled or built, the transport fails, the body cannot be read, or a
  response arrives with a status, a body and the outcome of unmarshalling that body.
\<close>

datatype exchange =
    MarshalFails go_error
  | NewRequestFails go_error
  | DoFails go_error
  | ReadAllFails go_error
  | HTTPResponse int bytes "go_error + Response"

text \<open>
  The environment of one attempt: whether the context is done before the back-off timer
  fires (and with which \<open>ctx.Err()\<close>), the exchange, the elapsed microseconds, and
  \<open>ctx.Err()\<close> after the attempt.
\<close>

record attempt_env =
  wait_ctx :: "go_error option"
  exch :: exchange
  elapsed :: int
  ctx_after :: "go_error option"

definition errorf_w :: "string \<Rightarrow> go_error \<Rightarrow> go_error" where
  "errorf_w msg e = Errorf (msg @ Error_string e) e"

text \<open>\<open>Client.call\<close>: one attempt. The deferred \<open>recordMetrics(duration, nil)\<close> adds the duration.\<close>

definition call :: "Client \<Rightarrow> exchange \<Rightarrow> int \<Rightarrow> (go_error + json option) \<times> Client" where
  "call c ex dur =
    (let c1 = c\<lparr>requestCount := requestCount c + 1\<rparr>;
         fail = (\<lambda>e. (Inl e, c1\<lparr>errorCount := errorCount c1 + 1,
                                  totalDuration := totalDuration c1 + dur\<rparr>))
     in case ex of
          MarshalFails e \<Rightarrow> fail (errorf_w ''failed to marshal request: '' e)
        | NewRequestFails e \<Rightarrow> fail (errorf_w ''failed to create request: '' e)
        | DoFails e \<Rightarrow> fail (errorf_w ''http request failed: '' e)
        | ReadAllFails e \<Rightarrow> fail (errorf_w ''failed to read response: '' e)
        | HTTPResponse status body parsed \<Rightarrow>
            (if status \<noteq> 200
             then fail (ErrorsNew (''http error '' @ show_int status @ '': '' @ body))
             else case parsed of
                 Inl e \<Rightarrow> fail (errorf_w ''failed to unmarshal response: '' e)
               | Inr resp \<Rightarrow>
                   (case Error resp of
                      Some (code, msg) \<Rightarrow> fail (RPCError code msg)
                    | None \<Rightarrow> (Inr (Result resp),
                                c1\<lparr>totalDuration := totalDuration c1 + dur\<rparr>))))"

text \<open>
  The reserved band test of \<open>Call\<close>: the error is an \<open>*RPCError\<close> (not wrapped) whose code
  lies in \<open>[-32099, -32000]\<close>.
\<close>

fun no_retry :: "go_error \<Rightarrow> bool" where
  "no_retry (RPCError code msg) = (code \<ge> -32099 \<and> code \<le> -32000)"
| "no_retry _ = False"

text \<open>
  The loop of \<open>Client.Call\<close> from attempt number \<open>attempt\<close> on. The result carries the
  client with its counters and the list of back-off waits actually slept, in order.
\<close>

function Call_loop ::
  "int \<Rightarrow> int \<Rightarrow> (int \<Rightarrow> attempt_env) \<Rightarrow> int \<Rightarrow> go_error option \<Rightarrow> Client \<Rightarrow> int list
     \<Rightarrow> (go_error + json option) \<times> Client \<times> int list" where
  "Call_loop maxR delay env attempt lastErr c waits =
    (if attempt \<le> maxR then
       (case (if attempt > 0 then wait_ctx (env attempt) else None) of
          Some e \<Rightarrow> (Inl e, c, waits)
        | None \<Rightarrow>
           (let waits' = (if attempt > 0 then waits @ [delay * attempt] else waits);
                (r, c') = call c (exch (env attempt)) (elapsed (env attempt))
            in case r of
                 Inr res \<Rightarrow> (Inr res, c', waits')
               | Inl err \<Rightarrow>
                   (case ctx_after (env attempt) of
                      Some e \<Rightarrow> (Inl e, c', waits')
                    | None \<Rightarrow>
                        if no_retry err then (Inl err, c', waits')
                        else Call_loop maxR delay env (attempt + 1) (Some err) c' waits')))
     else
       (Inl (case lastErr of
               Some e \<Rightarrow> errorf_w (''rpc call failed after '' @ show_int (maxR + 1)
                                     @ '' attempts: '') e
             | None \<Rightarrow> ErrorsNew (''rpc call failed after '' @ show_int (maxR + 1)
                                     @ '' attempts: %!w(<nil>)'')),
        c, waits))"
  by pat_completeness auto
termination
  by (relation "measure (\<lambda>(maxR, delay, env, attempt, lastErr, c, waits). nat (maxR + 1 - attempt))")
    auto

declare Call_loop.simps [simp del]

definition Call :: "Client \<Rightarrow> (int \<Rightarrow> attempt_env) \<Rightarrow> (go_error + json option) \<times> Client \<times> int list"
  where
  "Call c env = Call_loop (maxRetries c) (retryDelay c) env 0 None c []"

text \<open>
  \<open>json.Unmarshal\<close> of the raw result into \<open>[]map[string]interface{}\<close>: \<open>null\<close> gives the nil
  slice, an array of objects (or nulls) gives their maps, anything else (and an absent
  result) is an error. A map is an association list; a later duplicate key wins.
\<close>

fun as_object :: "json \<Rightarrow> (string \<times> json) list option" where
  "as_object (JObject kvs) = Some (rev kvs)"
| "as_object JNull = Some []"
| "as_object _ = None"

fun unmarshal_array :: "json option \<Rightarrow> go_error + (string \<times> json) list list" where
  "unmarshal_array (Some JNull) = Inr []"
| "unmarshal_array (Some (JArray xs)) =
     (if list_all (\<lambda>x. as_object x \<noteq> None) xs then Inr (map (\<lambda>x. the (as_object x)) xs)
      else Inl (ErrorsNew ''json: cannot unmarshal''))"
| "unmarshal_array _ = Inl (ErrorsNew ''json: cannot unmarshal'')"

text \<open>
  \<open>Client.DecryptData\<close>. The request parameters (the descriptor envelope with \<open>txid\<close> and
  \<open>evk\<close>) are sent to the node, whose behaviour is the environment \<open>env\<close>.
\<close>

definition Client_DecryptData ::
  "Client \<Rightarrow> (int \<Rightarrow> attempt_env) \<Rightarrow> (go_error + string) \<times> Client \<times> int list" where
  "Client_DecryptData c env =
    (case Call c env of
       (Inl err, c', ws) \<Rightarrow> (Inl (errorf_w ''decryptdata failed: '' err), c', ws)
     | (Inr result, c', ws) \<Rightarrow>
        (case unmarshal_array result of
           Inl e \<Rightarrow> (Inl (errorf_w ''failed to parse decryptdata result array: '' e), c', ws)
         | Inr resultArray \<Rightarrow>
            (case resultArray of
               [] \<Rightarrow> (Inl (ErrorsNew ''decryptdata returned empty result''), c', ws)
             | first # rest \<Rightarrow>
                (case map_of first ''objectdata'' of
                   Some (JString objectData) \<Rightarrow> (Inr objectData, c', ws)
                 | _ \<Rightarrow> (Inl (ErrorsNew ''objectdata field not found or not a string''),
                         c', ws)))))"

section \<open>The decryptor (\<open>internal/crypto/decrypt.go\<close>)\<close>

text \<open>\<open>^[0-9a-fA-F]{64}$\<close> and \<open>^zxviews[0-9a-z]+$\<close>\<close>

definition reTXID :: "string \<Rightarrow> bool" where
  "reTXID s \<longleftrightarrow> length s = 64 \<and> list_all (\<lambda>c. c \<in> set (digits @ ''abcdefABCDEF'')) s"

definition reEVK :: "string \<Rightarrow> bool" where
  "reEVK s \<longleftrightarrow> take 7 s = ''zxviews'' \<and> drop 7 s \<noteq> []
     \<and> list_all (\<lambda>c. c \<in> set (digits @ lower)) (drop 7 s)"

definition ValidateTXID :: "string \<Rightarrow> go_error option" where
  "ValidateTXID txid = (if \<not> reTXID txid then Some ErrInvalidTXID else None)"

definition ValidateEVK :: "string \<Rightarrow> go_error option" where
  "ValidateEVK evk = (if \<not> reEVK evk then Some ErrInvalidEVK else None)"

text \<open>\<open>hex.DecodeString\<close> of the standard library: pairs of hexadecimal digits to bytes.\<close>

definition fromHexChar :: "char \<Rightarrow> nat option" where
  "fromHexChar c =
    (if c \<in> set digits then Some (of_char c - 48)
     else if c \<in> set ''abcdef'' then Some (of_char c - 87)
     else if c \<in> set ''ABCDEF'' then Some (of_char c - 55)
     else None)"

fun hex_DecodeString :: "string \<Rightarrow> go_error + bytes" where
  "hex_DecodeString [] = Inr []"
| "hex_DecodeString [c] =
    (if fromHexChar c = None then Inl (ErrorsNew ''encoding/hex: invalid byte'')
     else Inl (ErrorsNew ''encoding/hex: odd length hex string''))"
| "hex_DecodeString (a # b # s) =
    (case (fromHexChar a, fromHexChar b) of
       (Some x, Some y) \<Rightarrow>
         (case hex_DecodeString s of
            Inl e \<Rightarrow> Inl e
          | Inr bs \<Rightarrow> Inr (char_of (16 * x + y) # bs))
     | _ \<Rightarrow> Inl (ErrorsNew ''encoding/hex: invalid byte''))"

text \<open>
  The \<open>RPCClient\<close> interface the decryptor is given: what \<open>DecryptData(ctx, txid, evk)\<close>
  returns.
\<close>

type_synonym RPCClient = "string \<Rightarrow> string \<Rightarrow> go_error + string"

text \<open>
  \<open>Decryptor.DecryptData\<close>. The second component lists the \<open>(txid, evk)\<close> pairs with which
  the client's \<open>DecryptData\<close> was called.
\<close>

definition Decryptor_DecryptData ::
  "RPCClient \<Rightarrow> string \<Rightarrow> string \<Rightarrow> (go_error + bytes) \<times> (string \<times> string) list" where
  "Decryptor_DecryptData client txid evk =
    (case ValidateTXID txid of
       Some err \<Rightarrow> (Inl (NewInvalidInputError ''txid'' (Error_string err)), [])
     | None \<Rightarrow>
        (case ValidateEVK evk of
           Some err \<Rightarrow> (Inl (NewInvalidInputError ''evk'' (Error_string err)), [])
         | None \<Rightarrow>
            (case client txid evk of
               Inl err \<Rightarrow> (Inl (NewDecryptionError txid err), [(txid, evk)])
             | Inr hexData \<Rightarrow>
                (case hex_DecodeString hexData of
                   Inl err \<Rightarrow>
                     (Inl (NewDecryptionError txid (errorf_w ''failed to decode hex data: '' err)),
                      [(txid, evk)])
                 | Inr d \<Rightarrow> (Inr d, [(txid, evk)])))))"

section \<open>The decompressor\<close>

text \<open>
  \<open>compress/gzip\<close> is a parameter: for a byte sequence, either the error of
  \<open>gzip.NewReader\<close>, or the chunks that successive \<open>Read\<close> calls deliver to \<open>io.Copy\<close>
  together with how the stream ends (\<open>None\<close> for \<open>io.EOF\<close>, or a read error).
\<close>

type_synonym gzip_reader = "bytes \<Rightarrow> go_error + (bytes list \<times> go_error option)"

record limitedWriter =
  W :: bytes
  N :: int

definition errSizeLimitExceeded :: go_error where
  "errSizeLimitExceeded = ErrorsNew ''size limit exceeded''"

definition ErrShortWrite :: go_error where
  "ErrShortWrite = ErrorsNew ''short write''"

text \<open>\<open>limitedWriter.Write\<close>; the underlying \<open>bytes.Buffer\<close> accepts every write whole.\<close>

definition lw_Write :: "limitedWriter \<Rightarrow> bytes \<Rightarrow> (nat \<times> go_error option) \<times> limitedWriter" where
  "lw_Write l p =
    (if N l \<le> 0 then ((0, Some errSizeLimitExceeded), l)
     else
       (let p' = (if int (length p) > N l then take (nat (N l)) p else p);
            n = length p';
            l' = l\<lparr>W := W l @ p', N := N l - int n\<rparr>
        in if N l' \<le> 0 then ((n, Some errSizeLimitExceeded), l') else ((n, None), l')))"

text \<open>
  \<open>io.Copy(lim, gr)\<close>: each non-empty chunk read is written; a write error or a short
  write stops the copy; the end of the stream stops it with the read error, if any.
\<close>

fun io_Copy :: "limitedWriter \<Rightarrow> bytes list \<Rightarrow> go_error option \<Rightarrow> go_error option \<times> limitedWriter"
  where
  "io_Copy l [] fin = (fin, l)"
| "io_Copy l (chunk # rest) fin =
    (if length chunk > 0 then
       (case lw_Write l chunk of
          ((nw, Some ew), l') \<Rightarrow> (Some ew, l')
        | ((nw, None), l') \<Rightarrow>
            if length chunk \<noteq> nw then (Some ErrShortWrite, l') else io_Copy l' rest fin)
     else io_Copy l rest fin)"

definition isGzipped :: "bytes \<Rightarrow> bool" where
  "isGzipped content =
    (if length content < 2 then False
     else content ! 0 = CHR 0x1F \<and> content ! 1 = CHR 0x8B)"

definition decompressGzip :: "gzip_reader \<Rightarrow> int \<Rightarrow> bytes \<Rightarrow> go_error + bytes" where
  "decompressGzip gz maxSize content =
    (case gz content of
       Inl err \<Rightarrow> Inl err
     | Inr (chunks, fin) \<Rightarrow>
        (case io_Copy \<lparr>W = [], N = maxSize\<rparr> chunks fin of
           (Some err, lim) \<Rightarrow>
             if err = errSizeLimitExceeded
             then Inl (NewDecompressionError
                    (''decompressed size exceeds limit of '' @ show_int maxSize @ '' bytes''))
             else Inl err
         | (None, lim) \<Rightarrow> Inr (W lim)))"

text \<open>\<open>Decompressor.Decompress\<close> of a decompressor with the given \<open>maxSize\<close>.\<close>

definition Decompress :: "gzip_reader \<Rightarrow> int \<Rightarrow> bytes \<Rightarrow> go_error + bytes" where
  "Decompress gz maxSize content =
    (if \<not> isGzipped content then Inr content
     else case decompressGzip gz maxSize content of
            Inl err \<Rightarrow>
              Inl (NewDecompressionError (''gzip decompression failed: '' @ Error_string err))
          | Inr decompressed \<Rightarrow> Inr decompressed)"

text \<open>\<open>NewDecompressor\<close>: a zero \<open>MaxSize\<close> becomes the default of 100 MiB.\<close>

definition NewDecompressor :: "int \<Rightarrow> int" where
  "NewDecompressor cfg_MaxSize = (if cfg_MaxSize = 0 then 100 * 1024 * 1024 else cfg_MaxSize)"

section \<open>The type detector (\<open>internal/storage/detector.go\<close>)\<close>

text \<open>
  \<open>http.DetectContentType\<close> of the standard library is a parameter \<open>sniff\<close> of the
  functions below.
\<close>

text \<open>The signature table of \<open>detectBySignature\<close>, in the order of the source.\<close>

definition signatures :: "(bytes \<times> string) list" where
  "signatures =
    [([CHR 0xFF, CHR 0xD8, CHR 0xFF], ''image/jpeg''),
     ([CHR 0x89, CHR 0x50, CHR 0x4E, CHR 0x47], ''image/png''),
     (''GIF87a'', ''image/gif''),
     (''GIF89a'', ''image/gif''),
     (''RIFF'', ''image/webp''),
     ([CHR 0x42, CHR 0x4D], ''image/bmp''),
     ([CHR 0x00, CHR 0x00, CHR 0x00, CHR 0x18, CHR 0x66, CHR 0x74, CHR 0x79, CHR 0x70],
        ''video/mp4''),
     ([CHR 0x1A, CHR 0x45, CHR 0xDF, CHR 0xA3], ''video/webm''),
     (''ID3'', ''audio/mpeg''),
     ([CHR 0xFF, CHR 0xFB], ''audio/mpeg''),
     (''OggS'', ''audio/ogg''),
     (''RIFF'', ''audio/wav''),
     (''%PDF'', ''application/pdf''),
     ([CHR ''P'', CHR ''K'', CHR 0x03, CHR 0x04], ''application/zip''),
     ([CHR 0x1F, CHR 0x8B], ''application/x-gzip''),
     (''Rar!'', ''application/x-rar-compressed''),
     ([CHR ''7'', CHR ''z'', CHR 0xBC, CHR 0xAF, CHR 0x27, CHR 0x1C],
        ''application/x-7z-compressed'')]"

text \<open>
  The loop over the table. \<open>bytes.Contains(content[8:12], m)\<close> with a four-byte \<open>m\<close> on a
  four-byte slice is equality.
\<close>

fun match_signatures :: "(bytes \<times> string) list \<Rightarrow> bytes \<Rightarrow> string" where
  "match_signatures [] content = []"
| "match_signatures ((magic, mime) # sigs) content =
    (if prefix magic content then
       (if prefix ''RIFF'' content \<and> length content > 12 then
          (if take 4 (drop 8 content) = ''WAVE'' then ''audio/wav''
           else if take 4 (drop 8 content) = ''WEBP'' then ''image/webp''
           else if take 4 (drop 8 content) = ''AVI '' then ''video/x-msvideo''
           else mime)
        else mime)
     else match_signatures sigs content)"

definition detectBySignature :: "bytes \<Rightarrow> string" where
  "detectBySignature content =
    (if length content < 16 then [] else match_signatures signatures content)"

definition DetectMIME :: "(bytes \<Rightarrow> string) \<Rightarrow> bytes \<Rightarrow> string" where
  "DetectMIME sniff content =
    (if length content = 0 then ''application/octet-stream''
     else
       (let mimeType = sniff content in
        if (mimeType = ''application/octet-stream'' \<or> mimeType = ''text/plain; charset=utf-8'')
           \<and> detectBySignature content \<noteq> []
        then detectBySignature content
        else mimeType))"

definition extMap :: "(string \<times> string) list" where
  "extMap =
    [(''image/jpeg'', ''jpg''), (''image/png'', ''png''), (''image/gif'', ''gif''),
     (''image/webp'', ''webp''), (''image/svg+xml'', ''svg''), (''image/bmp'', ''bmp''),
     (''video/mp4'', ''mp4''), (''video/webm'', ''webm''), (''video/mpeg'', ''mpeg''),
     (''audio/mpeg'', ''mp3''), (''audio/ogg'', ''ogg''), (''audio/wav'', ''wav''),
     (''application/pdf'', ''pdf''), (''application/zip'', ''zip''),
     (''application/x-gzip'', ''gz''), (''application/json'', ''json''),
     (''application/xml'', ''xml''), (''text/html'', ''html''), (''text/css'', ''css''),
     (''text/javascript'', ''js''), (''text/plain'', ''txt''),
     (''application/octet-stream'', ''bin'')]"

definition DetectExtension :: "(bytes \<Rightarrow> string) \<Rightarrow> bytes \<Rightarrow> string" where
  "DetectExtension sniff content =
    (case map_of extMap (DetectMIME sniff content) of Some ext \<Rightarrow> ext | None \<Rightarrow> ''bin'')"

definition isGzipCompressed :: "bytes \<Rightarrow> bool" where
  "isGzipCompressed content =
    (if length content < 2 then False
     else content ! 0 = CHR 0x1F \<and> content ! 1 = CHR 0x8B)"

text \<open>
  \<open>filepath.Ext\<close>: the suffix of the path from the last dot of its last element on, empty
  when that element has no dot. The scan runs from the end of the path.
\<close>

fun ext_scan :: "string \<Rightarrow> string \<Rightarrow> string" where
  "ext_scan [] acc = []"
| "ext_scan (c # front) acc =
    (if c = CHR ''/'' then []
     else if c = CHR ''.'' then c # acc
     else ext_scan front (c # acc))"

definition filepath_Ext :: "string \<Rightarrow> string" where
  "filepath_Ext p = ext_scan (rev p) []"

definition TrimPrefix :: "string \<Rightarrow> string \<Rightarrow> string" where
  "TrimPrefix s pre = (if prefix pre s then drop (length pre) s else s)"

text \<open>\<open>Detector.DetectType\<close>; it has no error return path.\<close>

definition DetectType :: "(bytes \<Rightarrow> string) \<Rightarrow> bytes \<Rightarrow> string \<Rightarrow> FileMetadata" where
  "DetectType sniff content filename =
    (let m0 = zero_FileMetadata\<lparr>Filename := filename, Size := int (length content)\<rparr>;
         m1 = m0\<lparr>ContentType := DetectMIME sniff content\<rparr>;
         m2 = (if filename \<noteq> [] \<and> filepath_Ext filename \<noteq> []
               then m1\<lparr>Extension := TrimPrefix (filepath_Ext filename) ''.''\<rparr> else m1);
         m3 = (if Extension m2 = [] then m2\<lparr>Extension := DetectExtension sniff content\<rparr>
               else m2)
     in m3\<lparr>Compressed := isGzipCompressed content\<rparr>)"

section \<open>The file service (\<open>internal/service/file_service.go\<close>)\<close>

text \<open>
  The service holds the chain manager (a map from chain id to client and the default
  chain id), an optional cache, seen through the \<open>Get\<close> of the \<open>Cache\<close> interface, and a
  decompressor with its size cap.
\<close>

record FileService =
  chains :: "string \<Rightarrow> RPCClient option"
  defaultChain :: string
  cache_Get :: "(string \<Rightarrow> go_error + File) option"
  decompressor :: int

text \<open>\<open>Manager.GetChain\<close> and \<open>FileService.getClient\<close>\<close>

definition GetChain :: "FileService \<Rightarrow> string \<Rightarrow> go_error + RPCClient" where
  "GetChain s chainID =
    (case chains s chainID of
       None \<Rightarrow> Inl (NewChainError chainID ''chain not found'')
     | Some client \<Rightarrow> Inr client)"

definition getClient :: "FileService \<Rightarrow> string \<Rightarrow> go_error + RPCClient" where
  "getClient s chainID =
    (if chainID = [] then GetChain s (defaultChain s) else GetChain s chainID)"

text \<open>
  What one run of \<open>GetFile\<close> does: the value returned, the \<open>DecryptData\<close> calls made on
  the chain's client, and the \<open>cache.Set(key, file, ttl)\<close> handed to a goroutine, if any.
\<close>

record GetFile_run =
  returned :: "go_error + File"
  rpc_calls :: "(string \<times> string) list"
  spawned_Set :: "(string \<times> File \<times> int) option"

definition hours24 :: int where
  "hours24 = 24 * 60 * 60 * 1000000000"

definition GetFile ::
  "gzip_reader \<Rightarrow> (bytes \<Rightarrow> string) \<Rightarrow> int \<Rightarrow> FileService \<Rightarrow> FileRequest \<Rightarrow> GetFile_run" where
  "GetFile gz sniff now s req =
    (case Validate req of
       Some err \<Rightarrow> \<lparr>returned = Inl err, rpc_calls = [], spawned_Set = None\<rparr>
     | None \<Rightarrow>
        (case (if req_UseCache req
               then (case cache_Get s of
                       Some get \<Rightarrow> (case get (CacheKey req) of Inr cached \<Rightarrow> Some cached
                                      | Inl e \<Rightarrow> None)
                     | None \<Rightarrow> None)
               else None) of
           Some cached \<Rightarrow> \<lparr>returned = Inr cached, rpc_calls = [], spawned_Set = None\<rparr>
         | None \<Rightarrow>
            (case getClient s (req_ChainID req) of
               Inl err \<Rightarrow> \<lparr>returned = Inl err, rpc_calls = [], spawned_Set = None\<rparr>
             | Inr client \<Rightarrow>
                (case Decryptor_DecryptData client (req_TXID req) (req_EVK req) of
                   (Inl err, calls) \<Rightarrow>
                     \<lparr>returned = Inl err, rpc_calls = calls, spawned_Set = None\<rparr>
                 | (Inr encryptedData, calls) \<Rightarrow>
                     (let d = (case Decompress gz (decompressor s) encryptedData of
                                 Inl err \<Rightarrow> encryptedData
                               | Inr d \<Rightarrow> d);
                          metadata = DetectType sniff d (req_Filename req);
                          file = \<lparr>TXID = req_TXID req, ChainID = req_ChainID req, Content = d,
                                  Metadata = Some metadata, RetrievedAt = now\<rparr>
                      in \<lparr>returned = Inr file, rpc_calls = calls,
                          spawned_Set =
                            (if req_UseCache req \<and> cache_Get s \<noteq> None
                             then Some (CacheKey req, file, hours24) else None)\<rparr>)))))"

section \<open>The filesystem cache\<close>

text \<open>
  The cache directory is modelled by its regular files: an association list from the
  full path to the file's bytes and modification time, with no path listed twice.
  Directories are implicit. The operations of package \<open>os\<close> are those of a filesystem
  that does not fail: \<open>MkdirAll\<close>, \<open>WriteFile\<close> and \<open>Remove\<close> succeed, \<open>Stat\<close> and \<open>ReadFile\<close>
  fail only when the file does not exist.
\<close>

record fsfile =
  data :: bytes
  modTime :: int

type_synonym filesystem = "(string \<times> fsfile) list"

definition os_Stat :: "filesystem \<Rightarrow> string \<Rightarrow> fsfile option" where
  "os_Stat fs p = map_of fs p"

definition os_ReadFile :: "filesystem \<Rightarrow> string \<Rightarrow> bytes option" where
  "os_ReadFile fs p = map_option data (map_of fs p)"

definition os_Remove :: "string \<Rightarrow> filesystem \<Rightarrow> filesystem" where
  "os_Remove p fs = AList.delete p fs"

definition os_WriteFile :: "string \<Rightarrow> bytes \<Rightarrow> int \<Rightarrow> filesystem \<Rightarrow> filesystem" where
  "os_WriteFile p content now fs = AList.update p \<lparr>data = content, modTime = now\<rparr> fs"

text \<open>
  \<open>filepath.Walk\<close> visits the files in lexical order. In the two-level layout of the
  cache (\<open>baseDir/xx/name.ext\<close>) that is the order of the full paths.
\<close>

definition filepath_Walk :: "filesystem \<Rightarrow> (string \<times> fsfile) list" where
  "filepath_Walk fs = sort_key fst fs"

text \<open>
  The cache struct: configuration and the four atomic counters. Each operation takes the
  cache and the directory and returns both; the lock makes each operation atomic.
\<close>

record FilesystemCache =
  baseDir :: string
  maxSize :: int
  ttl :: int
  hits :: nat
  misses :: nat
  size_ctr :: int
  items :: int

text \<open>
  \<open>getPaths\<close>. The hexadecimal SHA-256 digest of the key is a parameter \<open>H\<close>
  (\<open>crypto/sha256\<close> and \<open>encoding/hex\<close>); \<open>filepath.Join\<close> of clean components inserts the
  separators.
\<close>

definition getPaths :: "(string \<Rightarrow> string) \<Rightarrow> FilesystemCache \<Rightarrow> string \<Rightarrow> string \<times> string" where
  "getPaths H c key =
    (let filename = H key;
         subdir = take 2 filename
     in (baseDir c @ ''/'' @ subdir @ ''/'' @ filename @ ''.bin'',
         baseDir c @ ''/'' @ subdir @ ''/'' @ filename @ ''.meta''))"

text \<open>
  \<open>calculateSize\<close>: the total size and the number of the \<open>.bin\<close> files found by the walk.
\<close>

definition calculateSize :: "filesystem \<Rightarrow> int \<times> int" where
  "calculateSize fs =
    (let bins = filter (\<lambda>(p, f). filepath_Ext p = ''.bin'') (filepath_Walk fs)
     in (sum_list (map (\<lambda>(p, f). int (length (data f))) bins), int (length bins)))"

text \<open>The local struct \<open>fileInfo\<close> of \<open>evictOldest\<close>.\<close>

record fileInfo =
  fi_path :: string
  fi_size :: int
  fi_modTime :: int

definition collect :: "filesystem \<Rightarrow> fileInfo list" where
  "collect fs =
     map (\<lambda>(p, f). \<lparr>fi_path = p, fi_size = int (length (data f)), fi_modTime = modTime f\<rparr>)
       (filter (\<lambda>(p, f). filepath_Ext p = ''.bin'') (filepath_Walk fs))"

text \<open>
  The bubble sort of \<open>evictOldest\<close>, with both loops as in the source; \<open>n\<close> is
  \<open>len(files)\<close>, which the swaps do not change.
\<close>

function bubble_inner :: "nat \<Rightarrow> nat \<Rightarrow> nat \<Rightarrow> fileInfo list \<Rightarrow> fileInfo list" where
  "bubble_inner j i n files =
    (if j + i + 1 < n then
       bubble_inner (j + 1) i n
         (if fi_modTime (files ! j) > fi_modTime (files ! (j + 1))
          then files[j := files ! (j + 1), j + 1 := files ! j]
          else files)
     else files)"
  by pat_completeness auto
termination
  by (relation "measure (\<lambda>(j, i, n, files). n - (j + i))") auto

function bubble_outer :: "nat \<Rightarrow> nat \<Rightarrow> fileInfo list \<Rightarrow> fileInfo list" where
  "bubble_outer i n files =
    (if i + 1 < n then bubble_outer (i + 1) n (bubble_inner 0 i n files) else files)"
  by pat_completeness auto
termination
  by (relation "measure (\<lambda>(i, n, files). n - i)") auto

declare bubble_inner.simps [simp del] bubble_outer.simps [simp del]

definition bubble_sort :: "fileInfo list \<Rightarrow> fileInfo list" where
  "bubble_sort files = bubble_outer 0 (length files) files"

text \<open>
  The eviction loop: stop as soon as enough has been freed, otherwise remove the file
  and its \<open>.meta\<close> companion and adjust the counters.
\<close>

fun evict_loop ::
  "fileInfo list \<Rightarrow> int \<Rightarrow> int \<Rightarrow> FilesystemCache \<Rightarrow> filesystem \<Rightarrow> FilesystemCache \<times> filesystem"
  where
  "evict_loop [] neededSize freedSize c fs = (c, fs)"
| "evict_loop (f # rest) neededSize freedSize c fs =
    (if freedSize \<ge> neededSize then (c, fs)
     else
       evict_loop rest neededSize (freedSize + fi_size f)
         (c\<lparr>size_ctr := size_ctr c - fi_size f, items := items c - 1\<rparr>)
         (os_Remove (take (length (fi_path f) - 4) (fi_path f) @ ''.meta'')
            (os_Remove (fi_path f) fs)))"

text \<open>\<open>evictOldest\<close>; it always returns \<open>nil\<close>.\<close>

definition evictOldest :: "int \<Rightarrow> FilesystemCache \<Rightarrow> filesystem \<Rightarrow> FilesystemCache \<times> filesystem"
  where
  "evictOldest neededSize c fs = evict_loop (bubble_sort (collect fs)) neededSize 0 c fs"

text \<open>
  \<open>encoding/json\<close> on \<open>FileMetadata\<close> is a pair of parameters: \<open>marshal\<close> (\<open>None\<close> when
  \<open>json.Marshal\<close> fails) and \<open>unmarshal\<close>, the content of the zero struct after
  \<open>json.Unmarshal\<close> into it (the error is ignored by the caller).
\<close>

record json_codec =
  marshal :: "FileMetadata \<Rightarrow> bytes option"
  unmarshal :: "bytes \<Rightarrow> FileMetadata"

text \<open>
  \<open>FilesystemCache.Set\<close>. \<open>ctx_err\<close> is \<open>ctx.Err()\<close> when the context is done on entry;
  \<open>now\<close> is the clock, which stamps the files written. The \<open>ttl\<close> argument is not used
  by the body.
\<close>

definition Set ::
  "(string \<Rightarrow> string) \<Rightarrow> json_codec \<Rightarrow> go_error option \<Rightarrow> int \<Rightarrow> FilesystemCache \<Rightarrow> filesystem
     \<Rightarrow> string \<Rightarrow> File \<Rightarrow> int \<Rightarrow> go_error option \<times> FilesystemCache \<times> filesystem" where
  "Set H js ctx_err now c fs key file ttl_arg =
    (case ctx_err of
       Some e \<Rightarrow> (Some e, c, fs)
     | None \<Rightarrow>
        (let fileSize = int (length (Content file));
             (c1, fs1) = (if size_ctr c + fileSize > maxSize c then evictOldest fileSize c fs
                          else (c, fs));
             (contentPath, metaPath) = getPaths H c1 key;
             fs2 = os_WriteFile contentPath (Content file) now fs1;
             fs3 = (case Metadata file of
                      Some m \<Rightarrow>
                        (case marshal js m of
                           Some metaBytes \<Rightarrow> os_WriteFile metaPath metaBytes now fs2
                         | None \<Rightarrow> fs2)
                    | None \<Rightarrow> fs2)
         in (None, c1\<lparr>size_ctr := size_ctr c1 + fileSize, items := items c1 + 1\<rparr>, fs3)))"

text \<open>
  \<open>FilesystemCache.Get\<close>. A hit returns a \<open>File\<close> built from the content and the metadata
  read back; its other fields are what the composite literal gives them.
\<close>

definition Get ::
  "(string \<Rightarrow> string) \<Rightarrow> json_codec \<Rightarrow> go_error option \<Rightarrow> int \<Rightarrow> FilesystemCache \<Rightarrow> filesystem
     \<Rightarrow> string \<Rightarrow> (go_error + File) \<times> FilesystemCache \<times> filesystem" where
  "Get H js ctx_err now c fs key =
    (case ctx_err of
       Some e \<Rightarrow> (Inl e, c, fs)
     | None \<Rightarrow>
        (let (contentPath, metaPath) = getPaths H c key in
         case os_Stat fs contentPath of
           None \<Rightarrow> (Inl ErrCacheMiss, c\<lparr>misses := misses c + 1\<rparr>, fs)
         | Some info \<Rightarrow>
            if now - modTime info > ttl c
            then (Inl ErrCacheMiss, c\<lparr>misses := misses c + 1\<rparr>,
                  os_Remove metaPath (os_Remove contentPath fs))
            else
              (let content = data info;
                   metadata = (case os_ReadFile fs metaPath of
                                 Some metaBytes \<Rightarrow> unmarshal js metaBytes
                               | None \<Rightarrow> zero_FileMetadata)
               in (Inr \<lparr>TXID = [], ChainID = [], Content = content,
                         Metadata = Some metadata, RetrievedAt = now\<rparr>,
                   c\<lparr>hits := hits c + 1\<rparr>, fs))))"

text \<open>The bytes actually stored: the first component of \<open>calculateSize\<close>.\<close>

definition stored_size :: "filesystem \<Rightarrow> int" where
  "stored_size fs = fst (calculateSize fs)"

text \<open>
  A sequence of \<open>Set\<close> calls, each with its clock reading, key, file and \<open>ttl\<close> argument,
  on a live context; the sequence stops at the first call that returns an error.
\<close>

fun Set_sequence ::
  "(string \<Rightarrow> string) \<Rightarrow> json_codec \<Rightarrow> FilesystemCache \<Rightarrow> filesystem
     \<Rightarrow> (int \<times> string \<times> File \<times> int) list \<Rightarrow> go_error option \<times> FilesystemCache \<times> filesystem"
  where
  "Set_sequence H js c fs [] = (None, c, fs)"
| "Set_sequence H js c fs ((now, key, file, ttl_arg) # ops) =
    (case Set H js None now c fs key file ttl_arg of
       (Some e, c', fs') \<Rightarrow> (Some e, c', fs')
     | (None, c', fs') \<Rightarrow> Set_sequence H js c' fs' ops)"

text \<open>
  A list of \<open>fileInfo\<close> entries is a snapshot of the directory when its paths are
  pairwise different \<open>.bin\<close> files that exist with the recorded size.
\<close>

definition snapshot :: "fileInfo list \<Rightarrow> filesystem \<Rightarrow> bool" where
  "snapshot files fs \<longleftrightarrow>
     distinct (map fi_path files) \<and>
     (\<forall>f \<in> set files. filepath_Ext (fi_path f) = ''.bin'' \<and>
        (\<exists>e. map_of fs (fi_path f) = Some e \<and> fi_size f = int (length (data e))))"

section \<open>Notions used by the properties\<close>

text \<open>
  An attempt fails with a transport error or a non-200 status: \<open>httpClient.Do\<close> or the read
  of the body fails, or a response arrives whose status is not 200.
\<close>

fun transport_failure :: "exchange \<Rightarrow> bool" where
  "transport_failure (DoFails e) = True"
| "transport_failure (ReadAllFails e) = True"
| "transport_failure (HTTPResponse status body parsed) = (status \<noteq> 200)"
| "transport_failure _ = False"

text \<open>The counters after an attempt that failed.\<close>

definition failed_attempt :: "Client \<Rightarrow> int \<Rightarrow> Client" where
  "failed_attempt c dur = c\<lparr>requestCount := requestCount c + 1, errorCount := errorCount c + 1,
      totalDuration := totalDuration c + dur\<rparr>"

text \<open>
  The cache does not answer a request: caching is off for the request, the service has
  no cache, or the cache's \<open>Get\<close> returns an error (a miss is one).
\<close>

definition cache_miss :: "FileService \<Rightarrow> FileRequest \<Rightarrow> bool" where
  "cache_miss s req \<longleftrightarrow>
     \<not> req_UseCache req \<or> cache_Get s = None
     \<or> (\<exists>get e. cache_Get s = Some get \<and> get (CacheKey req) = Inl e)"

text \<open>
  The media types the signature table can produce: those of its rows and the three of
  the RIFF disambiguation.
\<close>

definition signature_types :: "string list" where
  "signature_types = map snd signatures @ [''audio/wav'', ''image/webp'', ''video/x-msvideo'']"

section \<open>Concrete inputs\<close>

text \<open>
  Two requests for the same transaction on the same chain that differ in their viewing
  keys only, and the same request without a viewing key.
\<close>

definition reqA :: FileRequest where
  "reqA = \<lparr>req_TXID = ''0123456789abcdef0123456789abcdef0123456789abcdef0123456789abcdef'',
     req_EVK = ''zxviews1q0duytgcqqqqpqre26wkl45gvwwwd706xw608hucmvfalr8rgq93rrg27zzp4j7r2rqd8dlsjg7uw7hghtsabcdef'',
     req_ChainID = ''vrsctest'', req_Filename = [], req_UseCache = False\<rparr>"

definition reqB :: FileRequest where
  "reqB = \<lparr>req_TXID = ''0123456789abcdef0123456789abcdef0123456789abcdef0123456789abcdef'',
     req_EVK = ''zxviews1q0duytgcqqqqpqre26wkl45gvwwwd706xw608hucmvfalr8rgq93rrg27zzp4j7r2rqd8dlsjg7uw7hghts012345'',
     req_ChainID = ''vrsctest'', req_Filename = [], req_UseCache = False\<rparr>"

definition reqPublic :: FileRequest where
  "reqPublic = \<lparr>req_TXID = ''0123456789abcdef0123456789abcdef0123456789abcdef0123456789abcdef'',
     req_EVK = [], req_ChainID = ''vrsctest'', req_Filename = [], req_UseCache = False\<rparr>"

text \<open>
  A cache of 50 bytes with a one-hour TTL (in nanoseconds) on an empty directory, a
  stand-in for the digest and for the JSON codec (the metadata is represented by its
  file name), and three files to store.
\<close>

definition H0 :: "string \<Rightarrow> string" where
  "H0 key = key"

definition js0 :: json_codec where
  "js0 = \<lparr>marshal = (\<lambda>m. Some (Filename m)),
           unmarshal = (\<lambda>b. zero_FileMetadata\<lparr>Filename := b\<rparr>)\<rparr>"

definition c0 :: FilesystemCache where
  "c0 = \<lparr>baseDir = ''/cache'', maxSize = 50, ttl = 3600000000000, hits = 0, misses = 0,
          size_ctr = 0, items = 0\<rparr>"

definition file1 :: File where
  "file1 = \<lparr>TXID = ''t1'', ChainID = ''vrsctest'', Content = ''small'',
             Metadata = Some (zero_FileMetadata\<lparr>Filename := ''test.txt''\<rparr>), RetrievedAt = 7\<rparr>"

definition file2 :: File where
  "file2 = \<lparr>TXID = ''t2'', ChainID = ''vrsctest'',
     Content = ''this is a much longer second file content that will definitely trigger eviction'',
     Metadata = None, RetrievedAt = 8\<rparr>"

definition file3 :: File where
  "file3 = \<lparr>TXID = ''t3'', ChainID = ''vrsctest'',
     Content = ''a second file that needs the room of the first'',
     Metadata = None, RetrievedAt = 9\<rparr>"

text \<open>An RPC client with the default three retries and half a second of delay.\<close>

definition client0 :: Client where
  "client0 = \<lparr>maxRetries = 3, retryDelay = 500000000, requestCount = 0, errorCount = 0,
     totalDuration = 0\<rparr>"

text \<open>
  A node that answers every attempt with HTTP 500, and a node that answers with the
  JSON-RPC error \<open>-32000\<close>.
\<close>

definition env500 :: "int \<Rightarrow> attempt_env" where
  "env500 i = \<lparr>wait_ctx = None,
     exch = HTTPResponse 500 ''Internal Server Error'' (Inl (ErrorsNew ''invalid character'')),
     elapsed = 10, ctx_after = None\<rparr>"

definition envServerError :: "int \<Rightarrow> attempt_env" where
  "envServerError i = \<lparr>wait_ctx = None,
     exch = HTTPResponse 200 [] (Inr \<lparr>Result = None, Error = Some (-32000, ''Server error'')\<rparr>),
     elapsed = 10, ctx_after = None\<rparr>"

text \<open>
  A gzip reader that rejects every input, one that knows the gzip encoding of \<open>hello\<close>,
  and a content sniffer that reports plain text.
\<close>

definition gz0 :: gzip_reader where
  "gz0 content = Inl (ErrorsNew ''gzip: invalid header'')"

definition gzipped_hello :: bytes where
  "gzipped_hello = [CHR 0x1F, CHR 0x8B, CHR 0x08, CHR 0x00, CHR 0x00, CHR 0x00, CHR 0x00, CHR 0x00,
     CHR 0x02, CHR 0xFF, CHR 0xCB, CHR 0x48, CHR 0xCD, CHR 0xC9, CHR 0xC9, CHR 0x07, CHR 0x00,
     CHR 0x86, CHR 0xA6, CHR 0x10, CHR 0x36, CHR 0x05, CHR 0x00, CHR 0x00, CHR 0x00]"

definition gzHello :: gzip_reader where
  "gzHello content =
     (if content = gzipped_hello then Inr ([''hello''], None)
      else Inl (ErrorsNew ''gzip: invalid header''))"

definition sniff0 :: "bytes \<Rightarrow> string" where
  "sniff0 content = ''text/plain; charset=utf-8''"

text \<open>
  Two file services without a cache for the chain \<open>vrsctest\<close>: one whose node always
  answers HTTP 500, and one whose node returns the four bytes \<open>1f 8b 00 00\<close> in hex.
\<close>

definition service500 :: FileService where
  "service500 = \<lparr>chains = (\<lambda>chainID. if chainID = ''vrsctest''
                     then Some (\<lambda>txid evk. fst (Client_DecryptData client0 env500)) else None),
     defaultChain = ''vrsctest'', cache_Get = None, decompressor = NewDecompressor 0\<rparr>"

definition serviceGz :: FileService where
  "serviceGz = \<lparr>chains = (\<lambda>chainID. if chainID = ''vrsctest''
                     then Some (\<lambda>txid evk. Inr ''1f8b0000'') else None),
     defaultChain = ''vrsctest'', cache_Get = None, decompressor = NewDecompressor 0\<rparr>"

section \<open>Cache keys\<close>

lemma split_at_separator:
  assumes "xs @ c # ys = xs' @ c # ys'" "c \<notin> set xs" "c \<notin> set xs'"
  shows "xs = xs' \<and> ys = ys'"
  using assms
proof (induction xs arbitrary: xs')
  case Nil
  then show ?case by (cases xs') auto
next
  case (Cons a xs)
  then show ?case by (cases xs') auto
qed

lemma colon_not_alnum: "CHR '':'' \<notin> set alnum"
  by (simp add: alnum_def lower_def upper_def digits_def)

lemma colon_not_chain: "chainIDPattern s \<Longrightarrow> CHR '':'' \<notin> set s"
  unfolding chainIDPattern_def list_all_iff using colon_not_alnum by auto

lemma Validate_NoneD:
  assumes "Validate r = None"
  shows "length (req_TXID r) = 64" "txidPattern (req_TXID r)" "chainIDPattern (req_ChainID r)"
    "length (req_ChainID r) \<le> 32"
    "req_EVK r \<noteq> [] \<Longrightarrow> 95 \<le> length (req_EVK r) \<and> evkPattern (req_EVK r)"
  using assms by (auto simp: Validate_def split: if_splits)

lemma zxviews_alnum: "list_all (\<lambda>c. c \<in> set alnum) ''zxviews''"
  by (simp add: alnum_def lower_def)

lemma evk_all_alnum:
  assumes "evkPattern e"
  shows "list_all (\<lambda>c. c \<in> set alnum) e"
proof -
  have "list_all (\<lambda>c. c \<in> set alnum) (take 7 e @ drop 7 e)"
    unfolding list_all_append using assms zxviews_alnum by (simp add: evkPattern_def)
  then show ?thesis by simp
qed

lemma CacheKey_shape:
  "CacheKey r =
     req_ChainID r @ CHR '':'' # (req_TXID r @ (if req_EVK r \<noteq> [] then '':encrypted'' else []))"
  by (simp add: CacheKey_def)

text \<open>
  A valid viewing key has at least 95 alphanumeric bytes; every run of 95 bytes of a
  valid request's key covers the colon after the chain id.
\<close>

lemma evk_not_in_key:
  assumes v1: "Validate r1 = None" and v2: "Validate r2 = None" and ne: "req_EVK r1 \<noteq> []"
  shows "\<not> sublist (req_EVK r1) (CacheKey r2)"
proof
  assume "sublist (req_EVK r1) (CacheKey r2)"
  then obtain ps ss where k: "CacheKey r2 = ps @ req_EVK r1 @ ss"
    by (auto simp: sublist_def)
  let ?e = "req_EVK r1" and ?c = "req_ChainID r2"
  have le: "95 \<le> length ?e" and al: "list_all (\<lambda>c. c \<in> set alnum) ?e"
    using Validate_NoneD(5)[OF v1 ne] evk_all_alnum by auto
  have lk: "length (CacheKey r2) \<le> length ?c + 75"
    using Validate_NoneD(1)[OF v2] by (simp add: CacheKey_def)
  have lc: "length ?c \<le> 32" using Validate_NoneD(4)[OF v2] .
  have "length (CacheKey r2) = length ps + length ?e + length ss" using k by simp
  with lk le lc have p1: "length ps \<le> length ?c" and p2: "length ?c < length ps + length ?e"
    by linarith+
  have "CacheKey r2 ! length ?c = CHR '':''"
    by (simp add: CacheKey_shape)
  moreover have "(ps @ ?e @ ss) ! length ?c = ?e ! (length ?c - length ps)"
    using p1 p2 by (auto simp: nth_append)
  moreover have "?e ! (length ?c - length ps) \<in> set alnum"
    using al p1 p2 by (simp add: list_all_length)
  ultimately show False using k colon_not_alnum by simp
qed

lemma CacheKey_inj:
  assumes v1: "Validate r1 = None" and v2: "Validate r2 = None" and eq: "CacheKey r1 = CacheKey r2"
  shows "req_ChainID r1 = req_ChainID r2 \<and> req_TXID r1 = req_TXID r2"
proof -
  let ?s1 = "req_TXID r1 @ (if req_EVK r1 \<noteq> [] then '':encrypted'' else [])"
  let ?s2 = "req_TXID r2 @ (if req_EVK r2 \<noteq> [] then '':encrypted'' else [])"
  have "req_ChainID r1 @ CHR '':'' # ?s1 = req_ChainID r2 @ CHR '':'' # ?s2"
    using eq by (simp only: CacheKey_shape)
  moreover have "CHR '':'' \<notin> set (req_ChainID r1)" "CHR '':'' \<notin> set (req_ChainID r2)"
    using colon_not_chain Validate_NoneD(3) v1 v2 by auto
  ultimately have cs: "req_ChainID r1 = req_ChainID r2 \<and> ?s1 = ?s2"
    by (rule split_at_separator)
  then have c: "req_ChainID r1 = req_ChainID r2" and s: "?s1 = ?s2" by simp_all
  have "take 64 ?s1 = req_TXID r1" "take 64 ?s2 = req_TXID r2"
    using Validate_NoneD(1) v1 v2 by simp_all
  with s c show ?thesis by metis
qed

lemma Validate_reqA: "Validate reqA = None"
  by code_simp

lemma Validate_reqB: "Validate reqB = None"
  by code_simp

lemma reEVK_reqA: "reEVK (req_EVK reqA)"
  by code_simp

text \<open>
  Claim C8. Over requests that pass \<open>Validate\<close>, the cache key determines the chain id
  and the transaction id; two requests with the same chain id and transaction id and
  non-empty viewing keys have the same key; the key is \<open>ChainID:TXID\<close> for an empty
  viewing key and \<open>ChainID:TXID:encrypted\<close> otherwise; and a non-empty viewing key occurs
  neither in the request's own key nor in the key of any other valid request.
\<close>

theorem CacheKey_injective_and_opaque:
  assumes "Validate r1 = None" and "Validate r2 = None"
  shows "(CacheKey r1 = CacheKey r2 \<longrightarrow>
            req_ChainID r1 = req_ChainID r2 \<and> req_TXID r1 = req_TXID r2)
       \<and> (req_ChainID r1 = req_ChainID r2 \<and> req_TXID r1 = req_TXID r2
            \<and> req_EVK r1 \<noteq> [] \<and> req_EVK r2 \<noteq> [] \<longrightarrow> CacheKey r1 = CacheKey r2)
       \<and> CacheKey r1 =
           (if req_EVK r1 = [] then req_ChainID r1 @ '':'' @ req_TXID r1
            else req_ChainID r1 @ '':'' @ req_TXID r1 @ '':encrypted'')
       \<and> (req_EVK r1 \<noteq> [] \<longrightarrow>
            \<not> sublist (req_EVK r1) (CacheKey r1) \<and> \<not> sublist (req_EVK r1) (CacheKey r2))"
proof (intro conjI impI)
  assume "CacheKey r1 = CacheKey r2"
  then show "req_ChainID r1 = req_ChainID r2" "req_TXID r1 = req_TXID r2"
    using CacheKey_inj[OF assms] by simp_all
next
  assume "req_ChainID r1 = req_ChainID r2 \<and> req_TXID r1 = req_TXID r2
            \<and> req_EVK r1 \<noteq> [] \<and> req_EVK r2 \<noteq> []"
  then show "CacheKey r1 = CacheKey r2" by (simp add: CacheKey_def)
next
  show "CacheKey r1 =
           (if req_EVK r1 = [] then req_ChainID r1 @ '':'' @ req_TXID r1
            else req_ChainID r1 @ '':'' @ req_TXID r1 @ '':encrypted'')"
    by (simp add: CacheKey_def)
next
  assume ne: "req_EVK r1 \<noteq> []"
  show "\<not> sublist (req_EVK r1) (CacheKey r1)"
    using evk_not_in_key[OF assms(1) assms(1) ne] .
  show "\<not> sublist (req_EVK r1) (CacheKey r2)"
    using evk_not_in_key[OF assms(1) assms(2) ne] .
qed

theorem CacheKey_injective_and_opaque_witness:
  "Validate reqA = None \<and> Validate reqB = None \<and> req_EVK reqA \<noteq> req_EVK reqB
   \<and> req_EVK reqA \<noteq> [] \<and> req_EVK reqB \<noteq> []
   \<and> req_ChainID reqA = req_ChainID reqB \<and> req_TXID reqA = req_TXID reqB
   \<and> CacheKey reqA = CacheKey reqB
   \<and> CacheKey reqA =
       ''vrsctest:0123456789abcdef0123456789abcdef0123456789abcdef0123456789abcdef:encrypted''
   \<and> \<not> sublist (req_EVK reqA) (CacheKey reqA) \<and> \<not> sublist (req_EVK reqA) (CacheKey reqB)"
proof -
  have eq: "req_ChainID reqA = req_ChainID reqB \<and> req_TXID reqA = req_TXID reqB
      \<and> req_EVK reqA \<noteq> [] \<and> req_EVK reqB \<noteq> [] \<and> req_EVK reqA \<noteq> req_EVK reqB"
    by (simp add: reqA_def reqB_def)
  have key: "CacheKey reqA =
       ''vrsctest:0123456789abcdef0123456789abcdef0123456789abcdef0123456789abcdef:encrypted''"
    by (simp add: CacheKey_def reqA_def)
  show ?thesis
    using CacheKey_injective_and_opaque[OF Validate_reqA Validate_reqB]
      Validate_reqA Validate_reqB eq key by simp
qed

section \<open>The size of the cache directory\<close>

lemma Ext_bin [simp]: "filepath_Ext (xs @ ''.bin'') = ''.bin''"
  by (simp add: filepath_Ext_def)

lemma Ext_meta [simp]: "filepath_Ext (xs @ ''.meta'') = ''.meta''"
  by (simp add: filepath_Ext_def)

lemma stored_size_alt:
  "stored_size fs =
     sum_list (map (\<lambda>(p, f). int (length (data f))) (filter (\<lambda>(p, f). filepath_Ext p = ''.bin'') fs))"
proof -
  let ?P = "\<lambda>(p, f). filepath_Ext p = ''.bin''" and ?g = "\<lambda>(p, f :: fsfile). int (length (data f))"
  have "mset (map ?g (filter ?P (sort_key fst fs))) = mset (map ?g (filter ?P fs))"
    by (simp add: mset_filter)
  then have "sum_list (map ?g (filter ?P (sort_key fst fs))) = sum_list (map ?g (filter ?P fs))"
    by (metis sum_mset_sum_list)
  then show ?thesis
    by (simp add: stored_size_def calculateSize_def filepath_Walk_def Let_def)
qed

lemma stored_size_nonneg: "0 \<le> stored_size fs"
  unfolding stored_size_alt by (induction fs) auto

lemma stored_Remove_nonbin:
  "filepath_Ext p \<noteq> ''.bin'' \<Longrightarrow> stored_size (os_Remove p fs) = stored_size fs"
  unfolding stored_size_alt os_Remove_def by (induction fs) auto

lemma stored_Remove_le: "stored_size (os_Remove p fs) \<le> stored_size fs"
  unfolding stored_size_alt os_Remove_def by (induction fs) auto

lemma stored_Remove_absent:
  "map_of fs p = None \<Longrightarrow> os_Remove p fs = fs"
  unfolding os_Remove_def by (simp add: delete_id map_of_eq_None_iff dom_map_of_conv_image_fst)

lemma stored_Remove_bin:
  "distinct (map fst fs) \<Longrightarrow> map_of fs p = Some e \<Longrightarrow> filepath_Ext p = ''.bin''
    \<Longrightarrow> stored_size (os_Remove p fs) = stored_size fs - int (length (data e))"
  unfolding stored_size_alt os_Remove_def
proof (induction fs)
  case Nil
  then show ?case by simp
next
  case (Cons a fs)
  obtain q f where a: "a = (q, f)" by (cases a)
  show ?case
  proof (cases "q = p")
    case True
    then have "p \<notin> fst ` set fs" using Cons.prems(1) a by auto
    then have "AList.delete p fs = fs" by (simp add: delete_id map_of_eq_None_iff)
    then show ?thesis using True a Cons.prems by simp
  next
    case False
    then show ?thesis using a Cons by simp
  qed
qed

lemma stored_Write_bin:
  "distinct (map fst fs) \<Longrightarrow> filepath_Ext p = ''.bin''
    \<Longrightarrow> stored_size (os_WriteFile p b now fs) = stored_size (os_Remove p fs) + int (length b)"
  unfolding stored_size_alt os_Remove_def os_WriteFile_def
proof (induction fs)
  case Nil
  then show ?case by simp
next
  case (Cons a fs)
  obtain q f where a: "a = (q, f)" by (cases a)
  show ?case
  proof (cases "q = p")
    case True
    then have "p \<notin> fst ` set fs" using Cons.prems(1) a by auto
    then have "AList.delete p fs = fs" by simp
    then show ?thesis using True a Cons.prems by simp
  next
    case False
    then show ?thesis using a Cons by simp
  qed
qed

lemma stored_Write_nonbin:
  "filepath_Ext p \<noteq> ''.bin'' \<Longrightarrow> stored_size (os_WriteFile p b now fs) = stored_size fs"
  unfolding stored_size_alt os_WriteFile_def
  by (induction fs) auto

lemma distinct_Remove: "distinct (map fst fs) \<Longrightarrow> distinct (map fst (os_Remove p fs))"
  by (simp add: os_Remove_def distinct_delete)

lemma distinct_Write: "distinct (map fst fs) \<Longrightarrow> distinct (map fst (os_WriteFile p b now fs))"
  by (simp add: os_WriteFile_def distinct_update)

lemma map_of_Remove: "map_of (os_Remove p fs) q = (if q = p then None else map_of fs q)"
  by (simp add: os_Remove_def AList.delete_conv)

lemma map_of_Write:
  "map_of (os_WriteFile p b now fs) q =
     (if q = p then Some \<lparr>data = b, modTime = now\<rparr> else map_of fs q)"
  by (simp add: os_WriteFile_def update_conv')

lemma set_Remove: "set (os_Remove p fs) \<subseteq> set fs"
  by (auto simp: os_Remove_def AList.delete_eq)

text \<open>The bubble sort permutes its input.\<close>

lemma bubble_inner_mset:
  "length files = n \<Longrightarrow> mset (bubble_inner j i n files) = mset files"
proof (induction j i n files rule: bubble_inner.induct)
  case (1 j i n files)
  show ?case
  proof (cases "j + i + 1 < n")
    case True
    let ?fs' = "if fi_modTime (files ! j) > fi_modTime (files ! (j + 1))
          then files[j := files ! (j + 1), j + 1 := files ! j] else files"
    have len: "length ?fs' = n" using "1.prems" by simp
    have ms: "mset ?fs' = mset files"
      using True "1.prems" by (simp add: mset_swap)
    have "mset (bubble_inner (j + 1) i n ?fs') = mset ?fs'"
      using "1.IH"[OF True len] .
    then show ?thesis using True ms by (subst bubble_inner.simps) simp
  next
    case False
    then show ?thesis by (subst bubble_inner.simps) simp
  qed
qed

lemma bubble_inner_length:
  "length files = n \<Longrightarrow> length (bubble_inner j i n files) = n"
  using bubble_inner_mset by (metis size_mset)

lemma bubble_outer_mset:
  "length files = n \<Longrightarrow> mset (bubble_outer i n files) = mset files"
proof (induction i n files rule: bubble_outer.induct)
  case (1 i n files)
  show ?case
  proof (cases "i + 1 < n")
    case True
    have "mset (bubble_outer (i + 1) n (bubble_inner 0 i n files)) = mset (bubble_inner 0 i n files)"
      using "1.IH"[OF True] bubble_inner_length[OF "1.prems"] by simp
    then show ?thesis
      using True bubble_inner_mset[OF "1.prems"]
      by (subst bubble_outer.simps) simp
  next
    case False
    then show ?thesis by (subst bubble_outer.simps) simp
  qed
qed

lemma bubble_sort_mset: "mset (bubble_sort files) = mset files"
  by (simp add: bubble_sort_def bubble_outer_mset)

lemma bubble_sort_set: "set (bubble_sort files) = set files"
  using bubble_sort_mset by (metis set_mset_mset)

lemma bubble_sort_distinct_paths:
  "distinct (map fi_path (bubble_sort files)) = distinct (map fi_path files)"
proof -
  have "mset (map fi_path (bubble_sort files)) = mset (map fi_path files)"
    by (simp add: bubble_sort_mset)
  then show ?thesis by (rule mset_eq_imp_distinct_iff)
qed

text \<open>Eviction removes what it subtracts from the counter.\<close>

lemma meta_companion_not_bin:
  "filepath_Ext (take (length p - 4) p @ ''.meta'') \<noteq> ''.bin''"
  by simp

lemma snapshot_step:
  assumes "snapshot (f # rest) fs"
  shows "snapshot rest (os_Remove (take (length (fi_path f) - 4) (fi_path f) @ ''.meta'')
            (os_Remove (fi_path f) fs))"
  unfolding snapshot_def
proof (intro conjI ballI)
  show "distinct (map fi_path rest)" using assms by (simp add: snapshot_def)
next
  fix g assume g: "g \<in> set rest"
  then show "filepath_Ext (fi_path g) = ''.bin''" using assms by (simp add: snapshot_def)
  have "fi_path f \<notin> fi_path ` set rest" using assms by (simp add: snapshot_def)
  then have ne1: "fi_path g \<noteq> fi_path f" using g by (metis imageI)
  have "filepath_Ext (fi_path g) = ''.bin''" using assms g by (simp add: snapshot_def)
  then have ne2: "fi_path g \<noteq> take (length (fi_path f) - 4) (fi_path f) @ ''.meta''"
    using meta_companion_not_bin by metis
  obtain e where "map_of fs (fi_path g) = Some e" "fi_size g = int (length (data e))"
    using assms g by (auto simp: snapshot_def)
  then show "\<exists>e. map_of (os_Remove (take (length (fi_path f) - 4) (fi_path f) @ ''.meta'')
            (os_Remove (fi_path f) fs)) (fi_path g) = Some e \<and> fi_size g = int (length (data e))"
    using ne1 ne2 by (simp add: map_of_Remove)
qed

lemma evict_loop_inv:
  assumes "distinct (map fst fs)" "snapshot files fs"
    "evict_loop files needed freed c fs = (c', fs')"
  shows "distinct (map fst fs') \<and>
         stored_size fs' - size_ctr c' = stored_size fs - size_ctr c \<and>
         size_ctr c' \<le> size_ctr c \<and>
         maxSize c' = maxSize c \<and> baseDir c' = baseDir c \<and> ttl c' = ttl c \<and>
         hits c' = hits c \<and> misses c' = misses c \<and>
         set fs' \<subseteq> set fs \<and>
         (needed \<le> freed + (size_ctr c - size_ctr c') \<or> (\<forall>f \<in> set files. fi_path f \<notin> fst ` set fs'))"
  using assms
proof (induction files arbitrary: freed c fs)
  case Nil
  then show ?case by simp
next
  case (Cons f rest)
  show ?case
  proof (cases "freed \<ge> needed")
    case True
    then show ?thesis using Cons.prems by simp
  next
    case False
    let ?mp = "take (length (fi_path f) - 4) (fi_path f) @ ''.meta''"
    let ?fs1 = "os_Remove ?mp (os_Remove (fi_path f) fs)"
    let ?c1 = "c\<lparr>size_ctr := size_ctr c - fi_size f, items := items c - 1\<rparr>"
    have run: "evict_loop rest needed (freed + fi_size f) ?c1 ?fs1 = (c', fs')"
      using Cons.prems(3) False by simp
    have d1: "distinct (map fst ?fs1)" using Cons.prems(1) by (simp add: distinct_Remove)
    have s1: "snapshot rest ?fs1" using snapshot_step[OF Cons.prems(2)] .
    note IH = Cons.IH[OF d1 s1 run]
    obtain e where e: "map_of fs (fi_path f) = Some e" "fi_size f = int (length (data e))"
      and bin: "filepath_Ext (fi_path f) = ''.bin''"
      using Cons.prems(2) by (auto simp: snapshot_def)
    have st1: "stored_size ?fs1 = stored_size fs - fi_size f"
      using stored_Remove_bin[OF Cons.prems(1) e(1) bin] e(2)
      by (simp add: stored_Remove_nonbin)
    have nn: "0 \<le> fi_size f" using e(2) by simp
    have sub: "set ?fs1 \<subseteq> set fs" using set_Remove by blast
    have gone: "fi_path f \<notin> fst ` set ?fs1"
    proof -
      have "map_of ?fs1 (fi_path f) = None" by (simp add: map_of_Remove)
      then show ?thesis by (simp add: map_of_eq_None_iff)
    qed
    have gone': "fi_path f \<notin> fst ` set fs'" using gone IH by auto
    show ?thesis
    proof (intro conjI)
      show "distinct (map fst fs')" using IH by simp
      show "stored_size fs' - size_ctr c' = stored_size fs - size_ctr c" using IH st1 by simp
      show "size_ctr c' \<le> size_ctr c" using IH nn by simp
      show "maxSize c' = maxSize c" "baseDir c' = baseDir c" "ttl c' = ttl c"
        "hits c' = hits c" "misses c' = misses c" using IH by simp_all
      show "set fs' \<subseteq> set fs" using IH sub by blast
      show "needed \<le> freed + (size_ctr c - size_ctr c') \<or> (\<forall>f \<in> set (f # rest). fi_path f \<notin> fst ` set fs')"
        using IH gone' by auto
    qed
  qed
qed

lemma collect_snapshot:
  assumes "distinct (map fst fs)"
  shows "snapshot (collect fs) fs"
proof -
  let ?P = "\<lambda>(p, f :: fsfile). filepath_Ext p = ''.bin''"
  have paths: "map fi_path (collect fs) = map fst (filter ?P (filepath_Walk fs))"
    by (simp add: collect_def split_def comp_def)
  have dw: "distinct (map fst (filepath_Walk fs))"
    using assms by (simp add: filepath_Walk_def distinct_map)
  have "distinct (map fst (filter ?P (filepath_Walk fs)))"
    using dw by (simp add: distinct_map_filter)
  then have 1: "distinct (map fi_path (collect fs))" using paths by simp
  have 2: "\<forall>f \<in> set (collect fs). filepath_Ext (fi_path f) = ''.bin'' \<and>
        (\<exists>e. map_of fs (fi_path f) = Some e \<and> fi_size f = int (length (data e)))"
    using assms by (auto simp: collect_def filepath_Walk_def)
  show ?thesis using 1 2 by (simp add: snapshot_def)
qed

lemma collect_covers:
  "(p, e) \<in> set fs \<Longrightarrow> filepath_Ext p = ''.bin'' \<Longrightarrow> p \<in> fi_path ` set (collect fs)"
  by (force simp: collect_def filepath_Walk_def image_iff)

lemma no_bins_stored_zero:
  "\<forall>(p, e) \<in> set fs. filepath_Ext p \<noteq> ''.bin'' \<Longrightarrow> stored_size fs = 0"
  unfolding stored_size_alt by (induction fs) auto

lemma evictOldest_inv:
  assumes "distinct (map fst fs)" "evictOldest needed c fs = (c', fs')"
  shows "distinct (map fst fs') \<and>
         stored_size fs' - size_ctr c' = stored_size fs - size_ctr c \<and>
         size_ctr c' \<le> size_ctr c \<and>
         maxSize c' = maxSize c \<and> baseDir c' = baseDir c \<and> ttl c' = ttl c \<and>
         hits c' = hits c \<and> misses c' = misses c \<and>
         (needed \<le> size_ctr c - size_ctr c' \<or> stored_size fs' = 0)"
proof -
  have snap: "snapshot (bubble_sort (collect fs)) fs"
    using collect_snapshot[OF assms(1)]
    by (simp add: snapshot_def bubble_sort_set bubble_sort_distinct_paths)
  have run: "evict_loop (bubble_sort (collect fs)) needed 0 c fs = (c', fs')"
    using assms(2) by (simp add: evictOldest_def)
  note inv = evict_loop_inv[OF assms(1) snap run]
  have "stored_size fs' = 0" if all: "\<forall>f \<in> set (bubble_sort (collect fs)). fi_path f \<notin> fst ` set fs'"
  proof (rule no_bins_stored_zero, clarify)
    fix p e assume pe: "(p, e) \<in> set fs'" and b: "filepath_Ext p = ''.bin''"
    then have "(p, e) \<in> set fs" using inv by blast
    then have "p \<in> fi_path ` set (collect fs)" using b by (rule collect_covers)
    then have "p \<notin> fst ` set fs'" using all by (auto simp: bubble_sort_set)
    then show False using pe by force
  qed
  then show ?thesis using inv by auto
qed

text \<open>One \<open>Set\<close> preserves the invariant, and so does a sequence of them.\<close>

lemma getPaths_bin: "filepath_Ext (fst (getPaths H c key)) = ''.bin''"
proof -
  have "fst (getPaths H c key) = (baseDir c @ ''/'' @ take 2 (H key) @ ''/'' @ H key) @ ''.bin''"
    by (simp add: getPaths_def Let_def)
  then show ?thesis by (simp only: Ext_bin)
qed

lemma getPaths_meta: "filepath_Ext (snd (getPaths H c key)) = ''.meta''"
proof -
  have "snd (getPaths H c key) = (baseDir c @ ''/'' @ take 2 (H key) @ ''/'' @ H key) @ ''.meta''"
    by (simp add: getPaths_def Let_def)
  then show ?thesis by (simp only: Ext_meta)
qed

lemma Set_unfold:
  assumes "Set H js None now c fs key file ttl_arg = (r, c', fs')"
    and "(c1, fs1) = (if size_ctr c + int (length (Content file)) > maxSize c
                then evictOldest (int (length (Content file))) c fs else (c, fs))"
  shows "r = None \<and> c' = c1\<lparr>size_ctr := size_ctr c1 + int (length (Content file)), items := items c1 + 1\<rparr>
   \<and> (fs' = os_WriteFile (fst (getPaths H c1 key)) (Content file) now fs1 \<or>
        (\<exists>mb. fs' = os_WriteFile (snd (getPaths H c1 key)) mb now
            (os_WriteFile (fst (getPaths H c1 key)) (Content file) now fs1)))"
proof -
  have "Set H js None now c fs key file ttl_arg =
     (None, c1\<lparr>size_ctr := size_ctr c1 + int (length (Content file)), items := items c1 + 1\<rparr>,
       (case Metadata file of
          Some m \<Rightarrow> (case marshal js m of
               Some metaBytes \<Rightarrow> os_WriteFile (snd (getPaths H c1 key)) metaBytes now
                   (os_WriteFile (fst (getPaths H c1 key)) (Content file) now fs1)
             | None \<Rightarrow> os_WriteFile (fst (getPaths H c1 key)) (Content file) now fs1)
        | None \<Rightarrow> os_WriteFile (fst (getPaths H c1 key)) (Content file) now fs1))"
    unfolding Set_def Let_def assms(2)[symmetric] by (simp add: split_def split: option.splits)
  with assms(1) show ?thesis
    by (cases "Metadata file"; cases "marshal js (the (Metadata file))") auto
qed

lemma Set_step:
  assumes d: "distinct (map fst fs)"
    and cap: "stored_size fs \<le> maxSize c" and ctr: "stored_size fs \<le> size_ctr c"
    and fit: "int (length (Content file)) \<le> maxSize c"
    and run: "Set H js None now c fs key file ttl_arg = (r, c', fs')"
  shows "r = None \<and> distinct (map fst fs') \<and> maxSize c' = maxSize c \<and> baseDir c' = baseDir c
     \<and> stored_size fs' \<le> maxSize c' \<and> stored_size fs' \<le> size_ctr c'
     \<and> (size_ctr c = stored_size fs \<and> os_Stat fs (fst (getPaths H c key)) = None
          \<longrightarrow> size_ctr c' = stored_size fs')"
proof -
  let ?n = "int (length (Content file))"
  obtain c1 fs1 where ev: "(c1, fs1) = (if size_ctr c + ?n > maxSize c
                then evictOldest ?n c fs else (c, fs))"
    by (cases "if size_ctr c + ?n > maxSize c then evictOldest ?n c fs else (c, fs)") simp
  note U = Set_unfold[OF run ev]
  have inv1: "distinct (map fst fs1) \<and> stored_size fs1 - size_ctr c1 = stored_size fs - size_ctr c
      \<and> maxSize c1 = maxSize c \<and> baseDir c1 = baseDir c \<and> set fs1 \<subseteq> set fs
      \<and> stored_size fs1 + ?n \<le> maxSize c"
  proof (cases "size_ctr c + ?n > maxSize c")
    case True
    then have e: "evictOldest ?n c fs = (c1, fs1)" using ev by simp
    note I = evictOldest_inv[OF d e]
    have r: "evict_loop (bubble_sort (collect fs)) ?n 0 c fs = (c1, fs1)"
      using e by (simp add: evictOldest_def)
    have snap: "snapshot (bubble_sort (collect fs)) fs"
      using collect_snapshot[OF d]
      by (simp add: snapshot_def bubble_sort_set bubble_sort_distinct_paths)
    have sub: "set fs1 \<subseteq> set fs" using evict_loop_inv[OF d snap r] by simp
    have "stored_size fs1 + ?n \<le> maxSize c"
    proof -
      from I have "?n \<le> size_ctr c - size_ctr c1 \<or> stored_size fs1 = 0" by simp
      then show ?thesis
      proof
        assume "?n \<le> size_ctr c - size_ctr c1"
        moreover have "stored_size fs1 = stored_size fs - (size_ctr c - size_ctr c1)"
          using I by linarith
        ultimately show ?thesis using cap by linarith
      next
        assume "stored_size fs1 = 0"
        then show ?thesis using fit by simp
      qed
    qed
    then show ?thesis using I sub by simp
  next
    case False
    then have "c1 = c" "fs1 = fs" using ev by simp_all
    then show ?thesis using d False ctr by simp
  qed
  let ?cp = "fst (getPaths H c1 key)" and ?mp = "snd (getPaths H c1 key)"
  let ?fs2 = "os_WriteFile ?cp (Content file) now fs1"
  have gp: "getPaths H c1 key = getPaths H c key" using inv1 by (simp add: getPaths_def)
  have d2: "distinct (map fst ?fs2)" using inv1 by (simp add: distinct_Write)
  have s2: "stored_size ?fs2 = stored_size (os_Remove ?cp fs1) + ?n"
    using inv1 by (simp add: stored_Write_bin getPaths_bin)
  have s2le: "stored_size ?fs2 \<le> stored_size fs1 + ?n"
    using s2 stored_Remove_le[of ?cp fs1] by linarith
  have fs': "fs' = ?fs2 \<or> (\<exists>mb. fs' = os_WriteFile ?mp mb now ?fs2)" using U by simp
  have nb: "filepath_Ext ?mp \<noteq> ''.bin''" by (simp add: getPaths_meta)
  have s': "stored_size fs' = stored_size ?fs2"
    using fs' nb by (auto simp: stored_Write_nonbin)
  have d': "distinct (map fst fs')" using fs' d2 by (auto simp: distinct_Write)
  have c': "c' = c1\<lparr>size_ctr := size_ctr c1 + ?n, items := items c1 + 1\<rparr>" using U by simp
  have exact: "size_ctr c' = stored_size fs'"
    if ex: "size_ctr c = stored_size fs" and fresh: "os_Stat fs (fst (getPaths H c key)) = None"
  proof -
    have "?cp \<notin> fst ` set fs" using fresh gp by (simp add: os_Stat_def map_of_eq_None_iff)
    then have "?cp \<notin> fst ` set fs1" using inv1 by auto
    then have "map_of fs1 ?cp = None" by (simp add: map_of_eq_None_iff)
    then have "os_Remove ?cp fs1 = fs1" by (rule stored_Remove_absent)
    then have "stored_size ?fs2 = stored_size fs1 + ?n" using s2 by simp
    moreover have "size_ctr c1 = stored_size fs1" using inv1 ex by linarith
    ultimately show ?thesis using s' c' by simp
  qed
  have "stored_size fs' \<le> size_ctr c'"
  proof -
    have "stored_size fs1 \<le> size_ctr c1" using inv1 ctr by linarith
    then show ?thesis using s' s2le c' by simp
  qed
  moreover have "stored_size fs' \<le> maxSize c'" using s' s2le inv1 c' by simp
  ultimately show ?thesis using U d' c' inv1 exact by simp
qed

text \<open>
  Claim C1, amended. Let the directory hold at most \<open>maxSize\<close> bytes in \<open>.bin\<close> files, and
  no more than the size counter says. Then after every sequence of \<open>Set\<close> calls in which
  each content has at most \<open>maxSize\<close> bytes (calls that overwrite a stored key included)
  every call succeeds and the \<open>.bin\<close> files again hold at most \<open>maxSize\<close> bytes, and no
  more than the size counter says.
\<close>

theorem Set_sequence_size_cap:
  assumes "distinct (map fst fs)"
    and "stored_size fs \<le> maxSize c" and "stored_size fs \<le> size_ctr c"
    and "\<forall>(now, key, file, ttl_arg) \<in> set ops. int (length (Content file)) \<le> maxSize c"
    and "Set_sequence H js c fs ops = (r, c', fs')"
  shows "r = None \<and> maxSize c' = maxSize c \<and> stored_size fs' \<le> maxSize c'
     \<and> stored_size fs' \<le> size_ctr c' \<and> distinct (map fst fs')"
  using assms
proof (induction ops arbitrary: c fs)
  case Nil
  then show ?case by simp
next
  case (Cons op ops)
  obtain now key fl ttl_arg where op: "op = (now, key, fl, ttl_arg)" by (cases op)
  obtain r1 c1 fs1 where s: "Set H js None now c fs key fl ttl_arg = (r1, c1, fs1)"
    using prod_cases3 by blast
  have fit: "int (length (Content fl)) \<le> maxSize c" using Cons.prems(4) op by simp
  note S = Set_step[OF Cons.prems(1-3) fit s]
  have rest: "Set_sequence H js c1 fs1 ops = (r, c', fs')"
    using Cons.prems(5) op s S by simp
  have fits: "\<forall>(now, key, file, ttl_arg) \<in> set ops. int (length (Content file)) \<le> maxSize c1"
    using Cons.prems(4) S by simp
  have "r = None \<and> maxSize c' = maxSize c1 \<and> stored_size fs' \<le> maxSize c'
     \<and> stored_size fs' \<le> size_ctr c' \<and> distinct (map fst fs')"
    using Cons.IH[OF _ _ _ fits rest] S by simp
  then show ?case using S by simp
qed

theorem Set_sequence_size_cap_witness:
  "distinct (map fst ([] :: filesystem)) \<and> stored_size [] \<le> maxSize c0 \<and> stored_size [] \<le> size_ctr c0
   \<and> fst (Set_sequence H0 js0 c0 [] [(100, ''key1'', file1, 0), (200, ''key2'', file3, 0), (300, ''key2'', file1, 0)]) = None
   \<and> stored_size (snd (snd (Set_sequence H0 js0 c0 []
          [(100, ''key1'', file1, 0), (200, ''key2'', file3, 0), (300, ''key2'', file1, 0)]))) \<le> 50"
proof -
  let ?ops = "[(100, ''key1'', file1, 0), (200, ''key2'', file3, 0), (300 :: int, ''key2'', file1, 0 :: int)]"
  have h1: "distinct (map fst ([] :: filesystem))" by simp
  have h2: "stored_size [] \<le> maxSize c0" by code_simp
  have h3: "stored_size [] \<le> size_ctr c0" by code_simp
  have h4: "\<forall>(now, key, file, ttl_arg) \<in> set ?ops. int (length (Content file)) \<le> maxSize c0"
    by (simp add: file1_def file3_def c0_def)
  have m: "maxSize c0 = 50" by (simp add: c0_def)
  obtain r c' fs' where run: "Set_sequence H0 js0 c0 [] ?ops = (r, c', fs')"
    using prod_cases3 by blast
  show ?thesis
    using Set_sequence_size_cap[OF h1 h2 h3 h4 run] h1 h2 h3 h4 run m by simp
qed

text \<open>
  The bound fails for a content larger than the cap: in a cache of 50 bytes, storing 5
  bytes and then 79 bytes evicts the first entry and stores the second, after which both
  the stored bytes and the size counter exceed \<open>maxSize\<close>.
\<close>

theorem Set_oversize_counterexample:
  "fst (Set_sequence H0 js0 c0 [] [(100, ''key1'', file1, 0), (200, ''key2'', file2, 0)]) = None
   \<and> \<not> stored_size (snd (snd (Set_sequence H0 js0 c0 []
            [(100, ''key1'', file1, 0), (200, ''key2'', file2, 0)])))
        \<le> maxSize (fst (snd (Set_sequence H0 js0 c0 []
            [(100, ''key1'', file1, 0), (200, ''key2'', file2, 0)])))
   \<and> \<not> size_ctr (fst (snd (Set_sequence H0 js0 c0 []
            [(100, ''key1'', file1, 0), (200, ''key2'', file2, 0)])))
        \<le> maxSize (fst (snd (Set_sequence H0 js0 c0 []
            [(100, ''key1'', file1, 0), (200, ''key2'', file2, 0)])))"
  by code_simp

section \<open>Storing and reading back\<close>

lemma evict_loop_config:
  "evict_loop files needed freed c fs = (c', fs') \<Longrightarrow>
     ttl c' = ttl c \<and> baseDir c' = baseDir c \<and> maxSize c' = maxSize c
     \<and> hits c' = hits c \<and> misses c' = misses c"
proof (induction files arbitrary: freed c fs)
  case Nil
  then show ?case by simp
next
  case (Cons f rest)
  show ?case
  proof (cases "freed \<ge> needed")
    case True
    then show ?thesis using Cons.prems by simp
  next
    case False
    then have "evict_loop rest needed (freed + fi_size f)
         (c\<lparr>size_ctr := size_ctr c - fi_size f, items := items c - 1\<rparr>)
         (os_Remove (take (length (fi_path f) - 4) (fi_path f) @ ''.meta'')
            (os_Remove (fi_path f) fs)) = (c', fs')"
      using Cons.prems by simp
    from Cons.IH[OF this] show ?thesis by simp
  qed
qed

lemma getPaths_differ: "fst (getPaths H c key) \<noteq> snd (getPaths H c key)"
  by (simp add: getPaths_def Let_def)

lemma Set_config:
  assumes "Set H js None t0 c fs key file ttl_arg = (r, c1, fs1)"
  shows "ttl c1 = ttl c \<and> baseDir c1 = baseDir c \<and> maxSize c1 = maxSize c
     \<and> hits c1 = hits c \<and> misses c1 = misses c"
proof -
  let ?n = "int (length (Content file))"
  obtain ce fse where ev: "(ce, fse) = (if size_ctr c + ?n > maxSize c
                then evictOldest ?n c fs else (c, fs))"
    by (cases "if size_ctr c + ?n > maxSize c then evictOldest ?n c fs else (c, fs)") simp
  have "ttl ce = ttl c \<and> baseDir ce = baseDir c \<and> maxSize ce = maxSize c
     \<and> hits ce = hits c \<and> misses ce = misses c"
  proof (cases "size_ctr c + ?n > maxSize c")
    case True
    then have "evict_loop (bubble_sort (collect fs)) ?n 0 c fs = (ce, fse)"
      using ev by (simp add: evictOldest_def)
    then show ?thesis by (rule evict_loop_config)
  next
    case False
    then show ?thesis using ev by simp
  qed
  then show ?thesis using Set_unfold[OF assms ev] by simp
qed

lemma Set_stores:
  assumes "Set H js None t0 c fs key file ttl_arg = (r, c1, fs1)"
  shows "r = None
     \<and> map_of fs1 (fst (getPaths H c key)) = Some \<lparr>data = Content file, modTime = t0\<rparr>
     \<and> (\<forall>m b. Metadata file = Some m \<and> marshal js m = Some b \<longrightarrow>
           map_of fs1 (snd (getPaths H c key)) = Some \<lparr>data = b, modTime = t0\<rparr>)"
proof -
  let ?n = "int (length (Content file))"
  obtain ce fse where ev: "(ce, fse) = (if size_ctr c + ?n > maxSize c
                then evictOldest ?n c fs else (c, fs))"
    by (cases "if size_ctr c + ?n > maxSize c then evictOldest ?n c fs else (c, fs)") simp
  have b: "baseDir ce = baseDir c"
  proof (cases "size_ctr c + ?n > maxSize c")
    case True
    then have "evict_loop (bubble_sort (collect fs)) ?n 0 c fs = (ce, fse)"
      using ev by (simp add: evictOldest_def)
    then show ?thesis using evict_loop_config by blast
  next
    case False
    then show ?thesis using ev by simp
  qed
  then have gp: "getPaths H ce key = getPaths H c key" by (simp add: getPaths_def)
  have "Set H js None t0 c fs key file ttl_arg =
     (None, ce\<lparr>size_ctr := size_ctr ce + ?n, items := items ce + 1\<rparr>,
       (case Metadata file of
          Some m \<Rightarrow> (case marshal js m of
               Some metaBytes \<Rightarrow> os_WriteFile (snd (getPaths H ce key)) metaBytes t0
                   (os_WriteFile (fst (getPaths H ce key)) (Content file) t0 fse)
             | None \<Rightarrow> os_WriteFile (fst (getPaths H ce key)) (Content file) t0 fse)
        | None \<Rightarrow> os_WriteFile (fst (getPaths H ce key)) (Content file) t0 fse))"
    unfolding Set_def Let_def ev[symmetric] by (simp add: split_def split: option.splits)
  with assms gp show ?thesis
    using getPaths_differ[of H c key]
    by (auto simp: map_of_Write split: option.splits)
qed

lemma Get_live:
  assumes "map_of fs (fst (getPaths H c key)) = Some info" and "\<not> now - modTime info > ttl c"
  shows "Get H js None now c fs key =
     (Inr \<lparr>TXID = [], ChainID = [], Content = data info,
           Metadata = Some (case os_ReadFile fs (snd (getPaths H c key)) of
                              Some metaBytes \<Rightarrow> unmarshal js metaBytes
                            | None \<Rightarrow> zero_FileMetadata),
           RetrievedAt = now\<rparr>, c\<lparr>hits := hits c + 1\<rparr>, fs)"
  using assms by (simp add: Get_def os_Stat_def split_def Let_def)

lemma Get_stale:
  assumes "map_of fs (fst (getPaths H c key)) = Some info" and "now - modTime info > ttl c"
  shows "Get H js None now c fs key =
     (Inl ErrCacheMiss, c\<lparr>misses := misses c + 1\<rparr>,
      os_Remove (snd (getPaths H c key)) (os_Remove (fst (getPaths H c key)) fs))"
  using assms by (simp add: Get_def os_Stat_def split_def Let_def)

text \<open>
  Claim C5, amended. A \<open>Set\<close> of a file under a key succeeds, and a \<open>Get\<close> of that key no
  later than the cache's TTL after it is a hit that leaves the directory as it is. The
  file returned has the content that was stored and, when the stored file had metadata
  that survive the JSON round trip, those metadata. Its \<open>TXID\<close> and \<open>ChainID\<close> are empty and
  its \<open>RetrievedAt\<close> is the time of the \<open>Get\<close>, whatever the stored file had there.
\<close>

theorem Set_then_Get_content_and_metadata:
  assumes "Set H js None t0 c fs key file ttl_arg = (r, c1, fs1)"
    and "t1 - t0 \<le> ttl c"
    and "Get H js None t1 c1 fs1 key = (g, c2, fs2)"
  shows "r = None \<and> fs2 = fs1 \<and>
    (\<exists>f. g = Inr f \<and> Content f = Content file \<and> TXID f = [] \<and> ChainID f = []
        \<and> RetrievedAt f = t1
        \<and> (\<forall>m b. Metadata file = Some m \<and> marshal js m = Some b \<and> unmarshal js b = m
              \<longrightarrow> Metadata f = Some m))"
proof -
  note cfg = Set_config[OF assms(1)]
  note st = Set_stores[OF assms(1)]
  have gp: "getPaths H c1 key = getPaths H c key" using cfg by (simp add: getPaths_def)
  let ?info = "\<lparr>data = Content file, modTime = t0\<rparr>"
  have a: "map_of fs1 (fst (getPaths H c1 key)) = Some ?info" using st gp by simp
  have b: "\<not> t1 - modTime ?info > ttl c1" using assms(2) cfg by simp
  note G = Get_live[OF a b, of js]
  have meta: "(case os_ReadFile fs1 (snd (getPaths H c1 key)) of
                 Some metaBytes \<Rightarrow> unmarshal js metaBytes | None \<Rightarrow> zero_FileMetadata) = m"
    if "Metadata file = Some m" "marshal js m = Some b" "unmarshal js b = m" for m b
    using st gp that by (simp add: os_ReadFile_def)
  show ?thesis using G assms(3) st meta by auto
qed

theorem Set_then_Get_content_and_metadata_witness:
  "fst (Set H0 js0 None 100 c0 [] ''key1'' file1 0) = None
   \<and> 200 - 100 \<le> ttl c0
   \<and> Metadata file1 = Some (zero_FileMetadata\<lparr>Filename := ''test.txt''\<rparr>)
   \<and> marshal js0 (zero_FileMetadata\<lparr>Filename := ''test.txt''\<rparr>) = Some ''test.txt''
   \<and> unmarshal js0 ''test.txt'' = zero_FileMetadata\<lparr>Filename := ''test.txt''\<rparr>
   \<and> fst (Get H0 js0 None 200 (fst (snd (Set H0 js0 None 100 c0 [] ''key1'' file1 0)))
             (snd (snd (Set H0 js0 None 100 c0 [] ''key1'' file1 0))) ''key1'')
       = Inr \<lparr>TXID = [], ChainID = [], Content = ''small'',
              Metadata = Some (zero_FileMetadata\<lparr>Filename := ''test.txt''\<rparr>), RetrievedAt = 200\<rparr>"
proof -
  obtain r c1 fs1 where s: "Set H0 js0 None 100 c0 [] ''key1'' file1 0 = (r, c1, fs1)"
    using prod_cases3 by blast
  obtain g c2 fs2 where g: "Get H0 js0 None 200 c1 fs1 ''key1'' = (g, c2, fs2)"
    using prod_cases3 by blast
  have t: "200 - 100 \<le> ttl c0" by (simp add: c0_def)
  have m: "Metadata file1 = Some (zero_FileMetadata\<lparr>Filename := ''test.txt''\<rparr>)"
    "marshal js0 (zero_FileMetadata\<lparr>Filename := ''test.txt''\<rparr>) = Some ''test.txt''"
    "unmarshal js0 ''test.txt'' = zero_FileMetadata\<lparr>Filename := ''test.txt''\<rparr>"
    "Content file1 = ''small''"
    by (simp_all add: file1_def js0_def)
  from Set_then_Get_content_and_metadata[OF s t g] m
  obtain f where "r = None" "g = Inr f" "Content f = ''small''" "TXID f = []" "ChainID f = []"
    "RetrievedAt f = 200" "Metadata f = Some (zero_FileMetadata\<lparr>Filename := ''test.txt''\<rparr>)"
    by auto
  then have "r = None \<and> g = Inr \<lparr>TXID = [], ChainID = [], Content = ''small'',
              Metadata = Some (zero_FileMetadata\<lparr>Filename := ''test.txt''\<rparr>), RetrievedAt = 200\<rparr>"
    by (cases f) simp
  then show ?thesis using s g t m by simp
qed

text \<open>
  The file read back is not the file stored: \<open>file1\<close> has the transaction id \<open>t1\<close>, the
  chain id \<open>vrsctest\<close> and the retrieval time 7.
\<close>

theorem Set_then_Get_counterexample:
  "fst (Get H0 js0 None 200 (fst (snd (Set H0 js0 None 100 c0 [] ''key1'' file1 0)))
             (snd (snd (Set H0 js0 None 100 c0 [] ''key1'' file1 0))) ''key1'')
     \<noteq> Inr file1"
proof -
  have "fst (Get H0 js0 None 200 (fst (snd (Set H0 js0 None 100 c0 [] ''key1'' file1 0)))
             (snd (snd (Set H0 js0 None 100 c0 [] ''key1'' file1 0))) ''key1'')
       = Inr \<lparr>TXID = [], ChainID = [], Content = ''small'',
              Metadata = Some (zero_FileMetadata\<lparr>Filename := ''test.txt''\<rparr>), RetrievedAt = 200\<rparr>"
    by code_simp
  then show ?thesis by (simp add: file1_def)
qed

text \<open>
  Claim C7. When the content file of a key exists and is older than the cache's TTL, \<open>Get\<close>
  of that key returns the miss \<open>ErrCacheMiss\<close>, counts a miss, and leaves a directory
  without the key's content file and without its metadata file; every other file is as
  before. The TTL is the one the cache was configured with: \<open>Set\<close> does not record its
  \<open>ttl\<close> argument.
\<close>

theorem Get_expired:
  assumes "os_Stat fs (fst (getPaths H c key)) = Some info"
    and "now - modTime info > ttl c"
    and "Get H js None now c fs key = (g, c', fs')"
  shows "g = Inl ErrCacheMiss \<and> c' = c\<lparr>misses := misses c + 1\<rparr>
     \<and> os_Stat fs' (fst (getPaths H c key)) = None
     \<and> os_Stat fs' (snd (getPaths H c key)) = None
     \<and> (\<forall>p. p \<noteq> fst (getPaths H c key) \<and> p \<noteq> snd (getPaths H c key)
            \<longrightarrow> os_Stat fs' p = os_Stat fs p)"
proof -
  have a: "map_of fs (fst (getPaths H c key)) = Some info" using assms(1) by (simp add: os_Stat_def)
  note G = Get_stale[OF a assms(2), of js]
  then show ?thesis using assms(3) by (auto simp: os_Stat_def map_of_Remove)
qed

theorem Get_expired_witness:
  "os_Stat (snd (snd (Set H0 js0 None 100 c0 [] ''key1'' file1 1))) (fst (getPaths H0 c0 ''key1''))
     = Some \<lparr>data = ''small'', modTime = 100\<rparr>
   \<and> os_Stat (snd (snd (Set H0 js0 None 100 c0 [] ''key1'' file1 1))) (snd (getPaths H0 c0 ''key1''))
     = Some \<lparr>data = ''test.txt'', modTime = 100\<rparr>
   \<and> 3600000000101 - 100 > ttl (fst (snd (Set H0 js0 None 100 c0 [] ''key1'' file1 1)))
   \<and> fst (Get H0 js0 None 3600000000101 (fst (snd (Set H0 js0 None 100 c0 [] ''key1'' file1 1)))
           (snd (snd (Set H0 js0 None 100 c0 [] ''key1'' file1 1))) ''key1'') = Inl ErrCacheMiss
   \<and> snd (snd (Get H0 js0 None 3600000000101 (fst (snd (Set H0 js0 None 100 c0 [] ''key1'' file1 1)))
           (snd (snd (Set H0 js0 None 100 c0 [] ''key1'' file1 1))) ''key1'')) = []"
proof -
  obtain r c1 fs1 where s: "Set H0 js0 None 100 c0 [] ''key1'' file1 1 = (r, c1, fs1)"
    using prod_cases3 by blast
  have c1: "c1 = fst (snd (Set H0 js0 None 100 c0 [] ''key1'' file1 1))"
    and fs1: "fs1 = snd (snd (Set H0 js0 None 100 c0 [] ''key1'' file1 1))"
    using s by simp_all
  have gp: "getPaths H0 c1 ''key1'' = getPaths H0 c0 ''key1''"
    unfolding c1 by code_simp
  have st: "os_Stat fs1 (fst (getPaths H0 c1 ''key1'')) = Some \<lparr>data = ''small'', modTime = 100\<rparr>"
    unfolding c1 fs1 by code_simp
  have st2: "os_Stat fs1 (snd (getPaths H0 c1 ''key1'')) = Some \<lparr>data = ''test.txt'', modTime = 100\<rparr>"
    unfolding c1 fs1 by code_simp
  have ex: "3600000000101 - modTime \<lparr>data = ''small'', modTime = 100\<rparr> > ttl c1"
    unfolding c1 by code_simp
  obtain g c2 fs2 where g: "Get H0 js0 None 3600000000101 c1 fs1 ''key1'' = (g, c2, fs2)"
    using prod_cases3 by blast
  have "snd (snd (Get H0 js0 None 3600000000101
           (fst (snd (Set H0 js0 None 100 c0 [] ''key1'' file1 1)))
           (snd (snd (Set H0 js0 None 100 c0 [] ''key1'' file1 1))) ''key1'')) = []"
    by code_simp
  then have e: "fs2 = []" using g unfolding c1 fs1 by simp
  show ?thesis
    using Get_expired[OF st ex g] st st2 ex g e gp s by simp
qed

section \<open>The retry loop of the RPC client\<close>

lemma call_transport_failure:
  assumes "transport_failure ex"
  shows "\<exists>e. \<not> no_retry e \<and> (\<forall>c dur. call c ex dur = (Inl e, failed_attempt c dur))"
proof (cases ex)
  case (DoFails e)
  then show ?thesis by (simp add: call_def failed_attempt_def errorf_w_def)
next
  case (ReadAllFails e)
  then show ?thesis by (simp add: call_def failed_attempt_def errorf_w_def)
next
  case (HTTPResponse status body parsed)
  then show ?thesis using assms by (simp add: call_def failed_attempt_def)
qed (use assms in simp_all)

lemma call_reserved:
  "call c (HTTPResponse 200 body (Inr \<lparr>Result = res, Error = Some (code, msg)\<rparr>)) dur
     = (Inl (RPCError code msg), failed_attempt c dur)"
  by (simp add: call_def failed_attempt_def)

lemma upto_step:
  assumes "0 \<le> attempt" "attempt \<le> maxR"
  shows "(if attempt > 0 then [attempt] else []) @ [max (attempt + 1) 1..maxR] = [max attempt 1..maxR]"
proof (cases "attempt > 0")
  case True
  then have "max (attempt + 1) 1 = attempt + 1" "max attempt 1 = attempt" by simp_all
  then show ?thesis using True assms by (simp add: upto_rec1)
next
  case False
  then have "attempt = 0" using assms by simp
  then show ?thesis by simp
qed

lemma Call_loop_exhaust:
  assumes "\<forall>i. attempt \<le> i \<and> i \<le> maxR \<longrightarrow>
             wait_ctx (env i) = None \<and> ctx_after (env i) = None \<and> transport_failure (exch (env i))"
    and "0 \<le> attempt" and "nat (maxR + 1 - attempt) = k" and "attempt \<le> maxR + 1"
    and "\<forall>c0 d. fst (call c0 (exch (env maxR)) d) = Inl eL"
    and "attempt = maxR + 1 \<longrightarrow> lastErr = Some eL"
  shows "\<exists>c'. Call_loop maxR delay env attempt lastErr c waits =
           (Inl (errorf_w (''rpc call failed after '' @ show_int (maxR + 1) @ '' attempts: '') eL),
            c', waits @ map (\<lambda>i. delay * i) [max attempt 1..maxR])
         \<and> requestCount c' = requestCount c + k \<and> errorCount c' = errorCount c + k
         \<and> maxRetries c' = maxRetries c \<and> retryDelay c' = retryDelay c"
  using assms
proof (induction k arbitrary: attempt lastErr c waits)
  case 0
  then have a: "attempt = maxR + 1" by simp
  then have "[max attempt 1..maxR] = []" by simp
  then show ?case using a 0 by (subst Call_loop.simps) simp
next
  case (Suc k)
  then have le: "attempt \<le> maxR" by simp
  from Suc.prems(1) le have w: "wait_ctx (env attempt) = None" and ca: "ctx_after (env attempt) = None"
    and tf: "transport_failure (exch (env attempt))" by simp_all
  obtain e where e: "\<not> no_retry e"
    "\<And>c dur. call c (exch (env attempt)) dur = (Inl e, failed_attempt c dur)"
    using call_transport_failure[OF tf] by blast
  let ?c1 = "failed_attempt c (elapsed (env attempt))"
  let ?w1 = "if attempt > 0 then waits @ [delay * attempt] else waits"
  have step: "Call_loop maxR delay env attempt lastErr c waits =
        Call_loop maxR delay env (attempt + 1) (Some e) ?c1 ?w1"
    using le w ca e by (subst Call_loop.simps) (simp add: Let_def)
  have last: "attempt + 1 = maxR + 1 \<longrightarrow> Some e = Some eL"
  proof
    assume "attempt + 1 = maxR + 1"
    then have "attempt = maxR" by simp
    then show "Some e = Some eL" using e(2)[of c 0] Suc.prems(5) by (metis fst_conv sum.inject(1))
  qed
  have IH: "\<exists>c'. Call_loop maxR delay env (attempt + 1) (Some e) ?c1 ?w1 =
           (Inl (errorf_w (''rpc call failed after '' @ show_int (maxR + 1) @ '' attempts: '') eL),
            c', ?w1 @ map (\<lambda>i. delay * i) [max (attempt + 1) 1..maxR])
         \<and> requestCount c' = requestCount ?c1 + k \<and> errorCount c' = errorCount ?c1 + k
         \<and> maxRetries c' = maxRetries ?c1 \<and> retryDelay c' = retryDelay ?c1"
  proof (rule Suc.IH)
    show "\<forall>i. attempt + 1 \<le> i \<and> i \<le> maxR \<longrightarrow>
             wait_ctx (env i) = None \<and> ctx_after (env i) = None \<and> transport_failure (exch (env i))"
      using Suc.prems(1) by simp
    show "0 \<le> attempt + 1" using Suc.prems(2) by simp
    show "nat (maxR + 1 - (attempt + 1)) = k" using Suc.prems(3) by linarith
    show "attempt + 1 \<le> maxR + 1" using le by simp
    show "\<forall>c0 d. fst (call c0 (exch (env maxR)) d) = Inl eL" using Suc.prems(5) .
    show "attempt + 1 = maxR + 1 \<longrightarrow> Some e = Some eL" using last .
  qed
  have ws: "?w1 @ map (\<lambda>i. delay * i) [max (attempt + 1) 1..maxR]
      = waits @ map (\<lambda>i. delay * i) [max attempt 1..maxR]"
  proof -
    have "?w1 = waits @ map (\<lambda>i. delay * i) (if attempt > 0 then [attempt] else [])" by simp
    then have "?w1 @ map (\<lambda>i. delay * i) [max (attempt + 1) 1..maxR]
        = waits @ map (\<lambda>i. delay * i) ((if attempt > 0 then [attempt] else []) @ [max (attempt + 1) 1..maxR])"
      by (simp only: map_append append_assoc)
    then show ?thesis using upto_step[OF Suc.prems(2) le] by simp
  qed
  show ?case using IH step ws by (auto simp: failed_attempt_def)
qed

lemma Call_exhausted:
  assumes "0 \<le> maxRetries c"
    and all: "\<forall>i. 0 \<le> i \<and> i \<le> maxRetries c \<longrightarrow>
             wait_ctx (env i) = None \<and> ctx_after (env i) = None \<and> transport_failure (exch (env i))"
  shows "\<exists>e c'. Call c env =
                  (Inl (errorf_w (''rpc call failed after '' @ show_int (maxRetries c + 1)
                                   @ '' attempts: '') e),
                   c', map (\<lambda>i. retryDelay c * i) [1..maxRetries c])
               \<and> (\<forall>c0 d. fst (call c0 (exch (env (maxRetries c))) d) = Inl e)
               \<and> int (requestCount c') = int (requestCount c) + (maxRetries c + 1)"
proof -
  have "transport_failure (exch (env (maxRetries c)))" using all assms(1) by simp
  then obtain eL where eL: "\<forall>c0 d. fst (call c0 (exch (env (maxRetries c))) d) = Inl eL"
    using call_transport_failure by (metis fst_conv)
  have "\<exists>c'. Call_loop (maxRetries c) (retryDelay c) env 0 None c [] =
           (Inl (errorf_w (''rpc call failed after '' @ show_int (maxRetries c + 1) @ '' attempts: '') eL),
            c', [] @ map (\<lambda>i. retryDelay c * i) [max 0 1..maxRetries c])
         \<and> requestCount c' = requestCount c + nat (maxRetries c + 1)
         \<and> errorCount c' = errorCount c + nat (maxRetries c + 1)
         \<and> maxRetries c' = maxRetries c \<and> retryDelay c' = retryDelay c"
    using all assms(1) eL by (intro Call_loop_exhaust) simp_all
  then obtain c' where c': "Call c env =
           (Inl (errorf_w (''rpc call failed after '' @ show_int (maxRetries c + 1) @ '' attempts: '') eL),
            c', map (\<lambda>i. retryDelay c * i) [1..maxRetries c])"
      "requestCount c' = requestCount c + nat (maxRetries c + 1)"
    by (auto simp: Call_def)
  have "int (requestCount c') = int (requestCount c) + (maxRetries c + 1)"
    using c'(2) assms(1) by simp
  then show ?thesis using c'(1) eL by blast
qed

text \<open>
  Claim C2. Let \<open>maxRetries\<close> be non-negative. If every attempt of a \<open>Call\<close> fails with a
  transport error or a non-200 status (and the context is not cancelled), the call makes
  \<open>maxRetries + 1\<close> attempts, sleeps \<open>retryDelay\<close> times the attempt index before the
  attempts 1 to \<open>maxRetries\<close>, and returns the error \<open>rpc call failed after maxRetries + 1
  attempts\<close> wrapping the error of the last attempt. If the first attempt returns a
  JSON-RPC error object whose code lies in the band from \<open>-32099\<close> to \<open>-32000\<close>, the call
  makes that one attempt, sleeps never, and returns that \<open>RPCError\<close> itself.
\<close>

theorem Call_retry_policy:
  assumes "0 \<le> maxRetries c"
  shows "((\<forall>i. 0 \<le> i \<and> i \<le> maxRetries c \<longrightarrow>
             wait_ctx (env i) = None \<and> ctx_after (env i) = None \<and> transport_failure (exch (env i)))
          \<longrightarrow> (\<exists>e c'. Call c env =
                  (Inl (errorf_w (''rpc call failed after '' @ show_int (maxRetries c + 1)
                                   @ '' attempts: '') e),
                   c', map (\<lambda>i. retryDelay c * i) [1..maxRetries c])
               \<and> (\<forall>c0 d. fst (call c0 (exch (env (maxRetries c))) d) = Inl e)
               \<and> int (requestCount c') = int (requestCount c) + (maxRetries c + 1)))
       \<and> (ctx_after (env 0) = None
           \<and> exch (env 0) = HTTPResponse 200 body (Inr \<lparr>Result = res, Error = Some (code, msg)\<rparr>)
           \<and> -32099 \<le> code \<and> code \<le> -32000
          \<longrightarrow> (\<exists>c'. Call c env = (Inl (RPCError code msg), c', [])
                 \<and> requestCount c' = requestCount c + 1))"
proof (intro conjI impI)
  assume "\<forall>i. 0 \<le> i \<and> i \<le> maxRetries c \<longrightarrow>
             wait_ctx (env i) = None \<and> ctx_after (env i) = None \<and> transport_failure (exch (env i))"
  then show "\<exists>e c'. Call c env =
                  (Inl (errorf_w (''rpc call failed after '' @ show_int (maxRetries c + 1)
                                   @ '' attempts: '') e),
                   c', map (\<lambda>i. retryDelay c * i) [1..maxRetries c])
               \<and> (\<forall>c0 d. fst (call c0 (exch (env (maxRetries c))) d) = Inl e)
               \<and> int (requestCount c') = int (requestCount c) + (maxRetries c + 1)"
    using Call_exhausted[OF assms] by simp
next
  assume r: "ctx_after (env 0) = None
           \<and> exch (env 0) = HTTPResponse 200 body (Inr \<lparr>Result = res, Error = Some (code, msg)\<rparr>)
           \<and> -32099 \<le> code \<and> code \<le> -32000"
  have "Call c env = (Inl (RPCError code msg), failed_attempt c (elapsed (env 0)), [])"
    unfolding Call_def using assms r
    by (subst Call_loop.simps) (simp add: call_reserved Let_def)
  then show "\<exists>c'. Call c env = (Inl (RPCError code msg), c', [])
                 \<and> requestCount c' = requestCount c + 1"
    by (simp add: failed_attempt_def)
qed

theorem Call_retry_policy_witness:
  "0 \<le> maxRetries client0
   \<and> fst (Call client0 env500) =
        Inl (Errorf ''rpc call failed after 4 attempts: http error 500: Internal Server Error''
               (ErrorsNew ''http error 500: Internal Server Error''))
   \<and> requestCount (fst (snd (Call client0 env500))) = 4
   \<and> snd (snd (Call client0 env500)) = [500000000, 1000000000, 1500000000]
   \<and> fst (Call client0 envServerError) = Inl (RPCError (-32000) ''Server error'')
   \<and> requestCount (fst (snd (Call client0 envServerError))) = 1
   \<and> snd (snd (Call client0 envServerError)) = []"
proof -
  have m: "0 \<le> maxRetries client0" "maxRetries client0 = 3" "retryDelay client0 = 500000000"
    "requestCount client0 = 0"
    by (simp_all add: client0_def)
  have h1: "\<forall>i. 0 \<le> i \<and> i \<le> maxRetries client0 \<longrightarrow>
             wait_ctx (env500 i) = None \<and> ctx_after (env500 i) = None
             \<and> transport_failure (exch (env500 i))"
    by (simp add: env500_def)
  have h2: "ctx_after (envServerError 0) = None
           \<and> exch (envServerError 0) =
               HTTPResponse 200 [] (Inr \<lparr>Result = None, Error = Some (-32000, ''Server error'')\<rparr>)
           \<and> -32099 \<le> (-32000 :: int) \<and> (-32000 :: int) \<le> -32000"
    by (simp add: envServerError_def)
  have e: "fst (call client0 (exch (env500 3)) 0) = Inl (ErrorsNew ''http error 500: Internal Server Error'')"
    by code_simp
  have s: "show_int 4 = ''4''" by code_simp
  have u: "[1..3] = [1, 2, 3 :: int]" by code_simp
  from Call_retry_policy[OF m(1), of env500] h1
  obtain e1 c1 where 1: "Call client0 env500 =
        (Inl (errorf_w (''rpc call failed after '' @ show_int (maxRetries client0 + 1) @ '' attempts: '') e1), c1,
         map (\<lambda>i. retryDelay client0 * i) [1..maxRetries client0])"
     "\<forall>c0 d. fst (call c0 (exch (env500 (maxRetries client0))) d) = Inl e1"
     "int (requestCount c1) = int (requestCount client0) + (maxRetries client0 + 1)"
    by blast
  have e1: "e1 = ErrorsNew ''http error 500: Internal Server Error''"
    using 1(2) e m(2) by (metis sum.inject(1))
  from Call_retry_policy[OF m(1), of envServerError "[]" None "-32000" "''Server error''"] h2
  obtain c2 where 2: "Call client0 envServerError = (Inl (RPCError (-32000) ''Server error''), c2, [])"
    "requestCount c2 = requestCount client0 + 1"
    by blast
  show ?thesis
    using 1(1,3) 2 e1 m s u by (simp add: errorf_w_def)
qed

section \<open>Errors and fallbacks of the file service\<close>

lemma txidPattern_reTXID: "txidPattern s \<Longrightarrow> reTXID s"
  by (auto simp: txidPattern_def reTXID_def list_all_iff)

lemma GetFile_after_miss:
  assumes "Validate req = None" and "cache_miss s req"
    and "chains s (req_ChainID req) = Some client"
  shows "GetFile gz sniff now s req =
    (case Decryptor_DecryptData client (req_TXID req) (req_EVK req) of
       (Inl err, calls) \<Rightarrow> \<lparr>returned = Inl err, rpc_calls = calls, spawned_Set = None\<rparr>
     | (Inr encryptedData, calls) \<Rightarrow>
         (let d = (case Decompress gz (decompressor s) encryptedData of
                     Inl err \<Rightarrow> encryptedData | Inr d \<Rightarrow> d);
              file = \<lparr>TXID = req_TXID req, ChainID = req_ChainID req, Content = d,
                      Metadata = Some (DetectType sniff d (req_Filename req)), RetrievedAt = now\<rparr>
          in \<lparr>returned = Inr file, rpc_calls = calls,
              spawned_Set = (if req_UseCache req \<and> cache_Get s \<noteq> None
                             then Some (CacheKey req, file, hours24) else None)\<rparr>))"
proof -
  have ne: "req_ChainID req \<noteq> []" using Validate_NoneD(3)[OF assms(1)] by (auto simp: chainIDPattern_def)
  have gc: "getClient s (req_ChainID req) = Inr client"
    using ne assms(3) by (simp add: getClient_def GetChain_def)
  have miss: "(if req_UseCache req
               then (case cache_Get s of
                       Some get \<Rightarrow> (case get (CacheKey req) of Inr cached \<Rightarrow> Some cached
                                      | Inl e \<Rightarrow> None)
                     | None \<Rightarrow> None)
               else None) = None"
    using assms(2) by (auto simp: cache_miss_def)
  show ?thesis
    unfolding GetFile_def assms(1) miss gc by (simp add: Let_def split: prod.splits sum.splits)
qed

lemma writeError_NewRPCError: "writeError (NewRPCError method err) = (502, ''RPC_ERROR'')"
  by (simp add: NewRPCError_def)

lemma Decryptor_rpc_failure:
  assumes "reTXID txid" "reEVK evk" "client txid evk = Inl e"
  shows "Decryptor_DecryptData client txid evk = (Inl (NewDecryptionError txid e), [(txid, evk)])"
  using assms by (simp add: Decryptor_DecryptData_def ValidateTXID_def ValidateEVK_def)

lemma Decryptor_empty_evk:
  assumes "reTXID txid"
  shows "Decryptor_DecryptData client txid [] =
     (Inl (NewInvalidInputError ''evk'' ''invalid evk''), [])"
  using assms
  by (simp add: Decryptor_DecryptData_def ValidateTXID_def ValidateEVK_def reEVK_def ErrInvalidEVK_def)

text \<open>Whatever the request, the client is never called with an empty viewing key.\<close>

lemma Decryptor_calls_nonempty_evk:
  "\<forall>(t, e) \<in> set (snd (Decryptor_DecryptData client txid evk)). e \<noteq> []"
  by (auto simp: Decryptor_DecryptData_def ValidateTXID_def ValidateEVK_def reEVK_def
      split: option.splits sum.splits)

text \<open>
  Claim C3, amended. For a valid request that the cache does not answer, on a known chain
  and with a viewing key the decryptor accepts: when every attempt of the client's
  \<open>decryptdata\<close> call fails with a transport error or a non-200 status, \<open>GetFile\<close> returns
  the domain error built by \<open>NewDecryptionError\<close>, which the HTTP surface translates to
  the code \<open>DECRYPTION_FAILED\<close> with status 500; the client was called once.
\<close>

theorem GetFile_rpc_failure_is_decryption_error:
  assumes "Validate req = None" and "cache_miss s req" and "reEVK (req_EVK req)"
    and "chains s (req_ChainID req) = Some (\<lambda>txid evk. fst (Client_DecryptData c env))"
    and "0 \<le> maxRetries c"
    and "\<forall>i. 0 \<le> i \<and> i \<le> maxRetries c \<longrightarrow>
           wait_ctx (env i) = None \<and> ctx_after (env i) = None \<and> transport_failure (exch (env i))"
  shows "\<exists>e. returned (GetFile gz sniff now s req) = Inl (NewDecryptionError (req_TXID req) e)
     \<and> writeError (NewDecryptionError (req_TXID req) e) = (500, ''DECRYPTION_FAILED'')
     \<and> rpc_calls (GetFile gz sniff now s req) = [(req_TXID req, req_EVK req)]"
proof -
  obtain e c' ws where call: "Call c env = (Inl e, c', ws)"
    using Call_exhausted[OF assms(5,6)] by blast
  let ?client = "\<lambda>txid evk :: string. fst (Client_DecryptData c env)"
  have fail: "?client (req_TXID req) (req_EVK req) = Inl (errorf_w ''decryptdata failed: '' e)"
    by (simp add: Client_DecryptData_def call)
  have tx: "reTXID (req_TXID req)"
    using Validate_NoneD(2)[OF assms(1)] by (rule txidPattern_reTXID)
  have d: "Decryptor_DecryptData ?client (req_TXID req) (req_EVK req) =
      (Inl (NewDecryptionError (req_TXID req) (errorf_w ''decryptdata failed: '' e)),
       [(req_TXID req, req_EVK req)])"
    using Decryptor_rpc_failure[OF tx assms(3) fail] .
  have "GetFile gz sniff now s req =
      \<lparr>returned = Inl (NewDecryptionError (req_TXID req) (errorf_w ''decryptdata failed: '' e)),
        rpc_calls = [(req_TXID req, req_EVK req)], spawned_Set = None\<rparr>"
    unfolding GetFile_after_miss[OF assms(1,2,4)] d by simp
  then show ?thesis by (simp add: NewDecryptionError_def)
qed

theorem GetFile_rpc_failure_is_decryption_error_witness:
  "Validate reqA = None \<and> cache_miss service500 reqA \<and> reEVK (req_EVK reqA)
   \<and> 0 \<le> maxRetries client0
   \<and> isl (returned (GetFile gz0 sniff0 0 service500 reqA))
   \<and> writeError (projl (returned (GetFile gz0 sniff0 0 service500 reqA)))
        = (500, ''DECRYPTION_FAILED'')
   \<and> rpc_calls (GetFile gz0 sniff0 0 service500 reqA) = [(req_TXID reqA, req_EVK reqA)]"
proof -
  have m: "cache_miss service500 reqA" by (simp add: cache_miss_def reqA_def)
  have ch: "chains service500 (req_ChainID reqA) =
       Some (\<lambda>txid evk. fst (Client_DecryptData client0 env500))"
    by (simp add: service500_def reqA_def)
  have r: "0 \<le> maxRetries client0" by (simp add: client0_def)
  have all: "\<forall>i. 0 \<le> i \<and> i \<le> maxRetries client0 \<longrightarrow>
           wait_ctx (env500 i) = None \<and> ctx_after (env500 i) = None
           \<and> transport_failure (exch (env500 i))"
    by (simp add: env500_def)
  from GetFile_rpc_failure_is_decryption_error[OF Validate_reqA m reEVK_reqA ch r all,
      of gz0 sniff0 0]
  show ?thesis using Validate_reqA m reEVK_reqA r by auto
qed

text \<open>
  With a node that answers HTTP 500 to all four attempts, the error of \<open>GetFile\<close> is not
  translated to \<open>RPC_ERROR\<close> with status 502.
\<close>

theorem GetFile_rpc_failure_counterexample:
  "isl (returned (GetFile gz0 sniff0 0 service500 reqA))
   \<and> writeError (projl (returned (GetFile gz0 sniff0 0 service500 reqA))) \<noteq> (502, ''RPC_ERROR'')"
  by code_simp

lemma Validate_empty_evk:
  assumes "req_EVK req = []" and "Validate (req\<lparr>req_EVK := evk\<rparr>) = None"
  shows "Validate req = None"
  using assms by (auto simp: Validate_def split: if_splits)

lemma GetFile_no_rpc_calls:
  assumes "\<And>client. snd (Decryptor_DecryptData client (req_TXID req) (req_EVK req)) = []"
  shows "rpc_calls (GetFile gz sniff now s req) = []"
proof -
  have "calls = []" if "Decryptor_DecryptData client (req_TXID req) (req_EVK req) = (r, calls)"
    for client r calls
    using assms[of client] that by simp
  then show ?thesis
    by (auto simp: GetFile_def Let_def split: option.splits sum.splits prod.splits)
qed

text \<open>
  Claim C4, amended. A request with an empty viewing key whose other fields are valid
  (it passes \<open>Validate\<close> once some viewing key is filled in) passes \<open>Validate\<close> as it is.
  \<open>GetFile\<close> never calls the client's \<open>DecryptData\<close> for it; when the cache does not
  answer and the chain is known, the decryptor's own check of the viewing key rejects
  the request with \<open>INVALID_INPUT\<close> for the field \<open>evk\<close>.
\<close>

theorem empty_evk_rejected_by_decryptor:
  assumes "req_EVK req = []" and "Validate (req\<lparr>req_EVK := evk\<rparr>) = None"
  shows "Validate req = None
     \<and> rpc_calls (GetFile gz sniff now s req) = []
     \<and> (cache_miss s req \<and> chains s (req_ChainID req) \<noteq> None \<longrightarrow>
          returned (GetFile gz sniff now s req) = Inl (NewInvalidInputError ''evk'' ''invalid evk''))"
proof -
  have v: "Validate req = None" using Validate_empty_evk[OF assms] .
  have tx: "reTXID (req_TXID req)"
    using Validate_NoneD(2)[OF v] by (rule txidPattern_reTXID)
  have d: "Decryptor_DecryptData client (req_TXID req) (req_EVK req) =
     (Inl (NewInvalidInputError ''evk'' ''invalid evk''), [])" for client
    using Decryptor_empty_evk[OF tx] assms(1) by simp
  have calls: "rpc_calls (GetFile gz sniff now s req) = []"
    by (rule GetFile_no_rpc_calls) (simp add: d)
  have "returned (GetFile gz sniff now s req) = Inl (NewInvalidInputError ''evk'' ''invalid evk'')"
    if miss: "cache_miss s req" and known: "chains s (req_ChainID req) \<noteq> None"
  proof -
    obtain client where c: "chains s (req_ChainID req) = Some client" using known by blast
    show ?thesis unfolding GetFile_after_miss[OF v miss c] d by simp
  qed
  then show ?thesis using v calls by simp
qed

theorem empty_evk_rejected_by_decryptor_witness:
  "req_EVK reqPublic = [] \<and> Validate (reqPublic\<lparr>req_EVK := req_EVK reqA\<rparr>) = None
   \<and> Validate reqPublic = None
   \<and> cache_miss service500 reqPublic \<and> chains service500 (req_ChainID reqPublic) \<noteq> None
   \<and> rpc_calls (GetFile gz0 sniff0 0 service500 reqPublic) = []
   \<and> returned (GetFile gz0 sniff0 0 service500 reqPublic)
        = Inl (NewInvalidInputError ''evk'' ''invalid evk'')"
proof -
  have e: "req_EVK reqPublic = []" by (simp add: reqPublic_def)
  have "reqPublic\<lparr>req_EVK := req_EVK reqA\<rparr> = reqA" by (simp add: reqPublic_def reqA_def)
  then have v: "Validate (reqPublic\<lparr>req_EVK := req_EVK reqA\<rparr>) = None"
    using Validate_reqA by simp
  have m: "cache_miss service500 reqPublic \<and> chains service500 (req_ChainID reqPublic) \<noteq> None"
    by (simp add: cache_miss_def service500_def reqPublic_def)
  show ?thesis
    using empty_evk_rejected_by_decryptor[OF e v, of gz0 sniff0 0 service500] e v m by simp
qed

text \<open>
  \<open>Validate\<close> does not reject a request because its viewing key is empty.
\<close>

theorem Validate_accepts_empty_evk_counterexample:
  "req_EVK reqPublic = [] \<and> Validate reqPublic = None"
  by code_simp

text \<open>
  Claim C9. For a valid request that the cache does not answer, on a known chain, whose
  decrypted payload starts with the gzip magic and fails to decompress with whatever
  error, \<open>GetFile\<close> returns a file, and its content is the payload as decrypted.
\<close>

theorem GetFile_decompression_fallback:
  assumes "Validate req = None" and "cache_miss s req"
    and "chains s (req_ChainID req) = Some client"
    and "Decryptor_DecryptData client (req_TXID req) (req_EVK req) = (Inr raw, calls)"
    and "isGzipped raw"
    and "Decompress gz (decompressor s) raw = Inl e"
  shows "\<exists>f. returned (GetFile gz sniff now s req) = Inr f \<and> Content f = raw
     \<and> TXID f = req_TXID req \<and> ChainID f = req_ChainID req
     \<and> Metadata f = Some (DetectType sniff raw (req_Filename req))"
proof -
  let ?file = "\<lparr>TXID = req_TXID req, ChainID = req_ChainID req, Content = raw,
      Metadata = Some (DetectType sniff raw (req_Filename req)), RetrievedAt = now\<rparr>"
  have fallback: "(case Decompress gz (decompressor s) raw of Inl err \<Rightarrow> raw | Inr d \<Rightarrow> d) = raw"
    using assms(6) by simp
  have "returned (GetFile gz sniff now s req) = Inr ?file"
    unfolding GetFile_after_miss[OF assms(1,2,3)] assms(4) by (simp add: Let_def fallback)
  then show ?thesis by simp
qed

theorem GetFile_decompression_fallback_witness:
  "Validate reqA = None \<and> cache_miss serviceGz reqA
   \<and> isGzipped [CHR 0x1F, CHR 0x8B, CHR 0x00, CHR 0x00]
   \<and> isl (Decompress gz0 (decompressor serviceGz) [CHR 0x1F, CHR 0x8B, CHR 0x00, CHR 0x00])
   \<and> \<not> isl (returned (GetFile gz0 sniff0 0 serviceGz reqA))
   \<and> Content (projr (returned (GetFile gz0 sniff0 0 serviceGz reqA)))
        = [CHR 0x1F, CHR 0x8B, CHR 0x00, CHR 0x00]"
proof -
  let ?raw = "[CHR 0x1F, CHR 0x8B, CHR 0x00, CHR 0x00]"
  have m: "cache_miss serviceGz reqA" by (simp add: cache_miss_def reqA_def)
  have ch: "chains serviceGz (req_ChainID reqA) = Some (\<lambda>txid evk. Inr ''1f8b0000'')"
    by (simp add: serviceGz_def reqA_def)
  have d: "Decryptor_DecryptData (\<lambda>txid evk. Inr ''1f8b0000'') (req_TXID reqA) (req_EVK reqA)
      = (Inr ?raw, [(req_TXID reqA, req_EVK reqA)])"
    by code_simp
  have g: "isGzipped ?raw" by code_simp
  obtain e where f: "Decompress gz0 (decompressor serviceGz) ?raw = Inl e"
    by (simp add: Decompress_def g decompressGzip_def gz0_def)
  from GetFile_decompression_fallback[OF Validate_reqA m ch d g f, of sniff0 0]
  show ?thesis using Validate_reqA m g f by auto
qed

section \<open>The size cap of the decompressor\<close>

lemma lw_Write_fits:
  assumes "p \<noteq> []" "int (length p) < n"
  shows "lw_Write \<lparr>W = w, N = n\<rparr> p = ((length p, None), \<lparr>W = w @ p, N = n - int (length p)\<rparr>)"
  using assms by (simp add: lw_Write_def Let_def)

lemma lw_Write_reaches_limit:
  assumes "p \<noteq> []" "int (length p) \<ge> n"
  shows "\<exists>k l. lw_Write \<lparr>W = w, N = n\<rparr> p = ((k, Some errSizeLimitExceeded), l)"
  using assms by (auto simp: lw_Write_def Let_def)

lemma io_Copy_limit:
  "io_Copy \<lparr>W = w, N = n\<rparr> chunks None = (r, l) \<Longrightarrow>
     (concat chunks = [] \<longrightarrow> r = None \<and> W l = w) \<and>
     (concat chunks \<noteq> [] \<and> int (length (concat chunks)) < n \<longrightarrow>
        r = None \<and> W l = w @ concat chunks) \<and>
     (concat chunks \<noteq> [] \<and> int (length (concat chunks)) \<ge> n \<longrightarrow>
        r = Some errSizeLimitExceeded)"
proof (induction chunks arbitrary: w n)
  case Nil
  then show ?case by auto
next
  case (Cons chunk rest)
  show ?case
  proof (cases "chunk = []")
    case True
    then have "io_Copy \<lparr>W = w, N = n\<rparr> rest None = (r, l)" using Cons.prems by simp
    from Cons.IH[OF this] show ?thesis using True by simp
  next
    case chunk: False
    then have cc: "concat (chunk # rest) \<noteq> []" by simp
    have len: "int (length (concat (chunk # rest))) = int (length chunk) + int (length (concat rest))"
      by simp
    show ?thesis
    proof (cases "int (length chunk) < n")
      case fits: True
      have "io_Copy \<lparr>W = w @ chunk, N = n - int (length chunk)\<rparr> rest None = (r, l)"
        using Cons.prems chunk lw_Write_fits[OF chunk fits, of w] by simp
      note IH = Cons.IH[OF this]
      show ?thesis
      proof (cases "concat rest = []")
        case e: True
        then have "r = None \<and> W l = w @ chunk" using IH by blast
        moreover have cr: "concat (chunk # rest) = chunk" using e by (simp del: concat_eq_Nil_conv)
        moreover have "int (length (concat (chunk # rest))) < n" using fits by (simp only: cr)
        ultimately show ?thesis using cc by simp
      next
        case ne: False
        show ?thesis
        proof (cases "int (length (concat rest)) < n - int (length chunk)")
          case True
          then have "r = None \<and> W l = (w @ chunk) @ concat rest" using IH ne by blast
          moreover have "int (length (concat (chunk # rest))) < n" using True len by linarith
          ultimately show ?thesis using cc by simp
        next
          case False
          then have "r = Some errSizeLimitExceeded" using IH ne by simp
          moreover have "\<not> int (length (concat (chunk # rest))) < n" using False len by linarith
          ultimately show ?thesis using cc by simp
        qed
      qed
    next
      case ge: False
      then obtain k l' where "lw_Write \<lparr>W = w, N = n\<rparr> chunk = ((k, Some errSizeLimitExceeded), l')"
        using lw_Write_reaches_limit[OF chunk, of n w] by auto
      then have "r = Some errSizeLimitExceeded" using Cons.prems chunk by simp
      moreover have "\<not> int (length (concat (chunk # rest))) < n" using ge len by linarith
      ultimately show ?thesis using cc by simp
    qed
  qed
qed

lemma Decompress_valid_gzip:
  assumes "isGzipped content" and "gz content = Inr (chunks, None)"
  shows "Decompress gz cap content =
     (if concat chunks = [] \<or> int (length (concat chunks)) < cap then Inr (concat chunks)
      else Inl (NewDecompressionError (''gzip decompression failed: '' @ Error_string
             (NewDecompressionError (''decompressed size exceeds limit of ''
                 @ show_int cap @ '' bytes'')))))"
proof -
  obtain r l where c: "io_Copy \<lparr>W = [], N = cap\<rparr> chunks None = (r, l)"
    by (cases "io_Copy \<lparr>W = [], N = cap\<rparr> chunks None") simp
  note L = io_Copy_limit[OF c]
  show ?thesis
  proof (cases "concat chunks = [] \<or> int (length (concat chunks)) < cap")
    case True
    then have "r = None \<and> W l = concat chunks" using L by auto
    then show ?thesis using True assms c by (simp add: Decompress_def decompressGzip_def)
  next
    case False
    then have "r = Some errSizeLimitExceeded" using L by auto
    then show ?thesis using False assms c by (simp add: Decompress_def decompressGzip_def)
  qed
qed

lemma Decompress_not_gzipped: "\<not> isGzipped content \<Longrightarrow> Decompress gz cap content = Inr content"
  by (simp add: Decompress_def)

lemma Decompress_error_code:
  "Decompress gz cap content = Inl e \<Longrightarrow> writeError e = (500, ''DECOMPRESSION_FAILED'')"
  by (auto simp: Decompress_def NewDecompressionError_def split: if_splits sum.splits)

text \<open>
  Claim C6, amended. \<open>Decompress\<close> returns a content that does not start with the gzip
  magic unchanged. For a content that starts with the magic and is a gzip stream of the
  bytes \<open>b\<close>, it returns \<open>b\<close> when \<open>b\<close> is empty or shorter than \<open>maxSize\<close>, and fails when
  \<open>b\<close> is not empty and has \<open>maxSize\<close> bytes or more: the limited writer reports the limit
  as soon as the allowance is used up. Every error of \<open>Decompress\<close> carries the code
  \<open>DECOMPRESSION_FAILED\<close> with status 500.
\<close>

theorem Decompress_characterisation:
  "(\<not> isGzipped content \<longrightarrow> Decompress gz cap content = Inr content)
   \<and> (isGzipped content \<and> gz content = Inr (chunks, None)
        \<and> (concat chunks = [] \<or> int (length (concat chunks)) < cap)
       \<longrightarrow> Decompress gz cap content = Inr (concat chunks))
   \<and> (isGzipped content \<and> gz content = Inr (chunks, None)
        \<and> concat chunks \<noteq> [] \<and> cap \<le> int (length (concat chunks))
       \<longrightarrow> (\<exists>e. Decompress gz cap content = Inl e))
   \<and> (\<forall>e. Decompress gz cap content = Inl e \<longrightarrow> writeError e = (500, ''DECOMPRESSION_FAILED''))"
proof (intro conjI impI allI)
  assume "\<not> isGzipped content"
  then show "Decompress gz cap content = Inr content" by (rule Decompress_not_gzipped)
next
  assume a: "isGzipped content \<and> gz content = Inr (chunks, None)
        \<and> (concat chunks = [] \<or> int (length (concat chunks)) < cap)"
  then have ig: "isGzipped content" and gc: "gz content = Inr (chunks, None)" by simp_all
  from Decompress_valid_gzip[of content gz chunks cap, OF ig gc] a
  show "Decompress gz cap content = Inr (concat chunks)" by simp
next
  assume a: "isGzipped content \<and> gz content = Inr (chunks, None)
        \<and> concat chunks \<noteq> [] \<and> cap \<le> int (length (concat chunks))"
  then have ig: "isGzipped content" and gc: "gz content = Inr (chunks, None)" by simp_all
  from Decompress_valid_gzip[of content gz chunks cap, OF ig gc] a
  show "\<exists>e. Decompress gz cap content = Inl e" by simp
next
  fix e assume "Decompress gz cap content = Inl e"
  then show "writeError e = (500, ''DECOMPRESSION_FAILED'')" by (rule Decompress_error_code)
qed

theorem Decompress_characterisation_witness:
  "\<not> isGzipped ''hello'' \<and> Decompress gzHello 5 ''hello'' = Inr ''hello''
   \<and> isGzipped gzipped_hello \<and> gzHello gzipped_hello = Inr ([''hello''], None)
   \<and> int (length (concat [''hello''])) < 6
   \<and> Decompress gzHello 6 gzipped_hello = Inr ''hello''
   \<and> concat [''hello''] \<noteq> [] \<and> (4 :: int) \<le> int (length (concat [''hello'']))
   \<and> isl (Decompress gzHello 4 gzipped_hello)
   \<and> writeError (projl (Decompress gzHello 4 gzipped_hello)) = (500, ''DECOMPRESSION_FAILED'')"
proof -
  have n: "\<not> isGzipped ''hello''" by code_simp
  have g: "isGzipped gzipped_hello" by code_simp
  have r: "gzHello gzipped_hello = Inr ([''hello''], None)" by (simp add: gzHello_def)
  have c: "concat [''hello''] = ''hello''" by simp
  note A = Decompress_characterisation[of "''hello''" gzHello 5 "[]"]
  note B = Decompress_characterisation[of gzipped_hello gzHello 6 "[''hello'']"]
  note C = Decompress_characterisation[of gzipped_hello gzHello 4 "[''hello'']"]
  have 1: "Decompress gzHello 5 ''hello'' = Inr ''hello''" using A n by simp
  have 2: "Decompress gzHello 6 gzipped_hello = Inr ''hello''" using B g r by simp
  obtain e where e: "Decompress gzHello 4 gzipped_hello = Inl e" using C g r by auto
  then have 3: "writeError e = (500, ''DECOMPRESSION_FAILED'')" using C by blast
  show ?thesis using n g r 1 2 e 3 by simp
qed

text \<open>
  A size at the cap does not succeed: the gzip encoding of the five bytes \<open>hello\<close>
  decompresses under a cap of 6 and fails under a cap of 5, although five bytes do not
  exceed five.
\<close>

theorem Decompress_at_cap_counterexample:
  "isGzipped gzipped_hello \<and> gzHello gzipped_hello = Inr ([''hello''], None)
   \<and> int (length ''hello'') = 5
   \<and> Decompress gzHello 6 gzipped_hello = Inr ''hello''
   \<and> Decompress gzHello 5 gzipped_hello =
       Inl (DomainError ''DECOMPRESSION_FAILED''
             ''decompression failed: gzip decompression failed: decompression failed: decompressed size exceeds limit of 5 bytes: decompression failed''
             (Some ErrDecompressionFailed) 500
             [(''reason'', ''gzip decompression failed: decompression failed: decompressed size exceeds limit of 5 bytes: decompression failed'')])"
proof -
  have g: "isGzipped gzipped_hello" by code_simp
  have r: "gzHello gzipped_hello = Inr ([''hello''], None)" by (simp add: gzHello_def)
  have c: "concat [''hello''] = ''hello''" by simp
  have under: "Decompress gzHello 6 gzipped_hello = Inr ''hello''"
    unfolding Decompress_valid_gzip[of gzipped_hello gzHello "[''hello'']", OF g r] c by simp
  have "Decompress gzHello 5 gzipped_hello =
      Inl (NewDecompressionError (''gzip decompression failed: '' @ Error_string
             (NewDecompressionError (''decompressed size exceeds limit of ''
                 @ show_int 5 @ '' bytes''))))"
    unfolding Decompress_valid_gzip[of gzipped_hello gzHello "[''hello'']", OF g r] c by simp
  moreover have "show_int 5 = ''5''" by code_simp
  ultimately have at: "Decompress gzHello 5 gzipped_hello =
       Inl (DomainError ''DECOMPRESSION_FAILED''
             ''decompression failed: gzip decompression failed: decompression failed: decompressed size exceeds limit of 5 bytes: decompression failed''
             (Some ErrDecompressionFailed) 500
             [(''reason'', ''gzip decompression failed: decompression failed: decompressed size exceeds limit of 5 bytes: decompression failed'')])"
    by (simp add: NewDecompressionError_def ErrDecompressionFailed_def)
  show ?thesis using g r under at by simp
qed

section \<open>Short contents and the signature table\<close>

lemma sniffed_not_signature_type:
  "''application/octet-stream'' \<notin> set signature_types"
  "''text/plain; charset=utf-8'' \<notin> set signature_types"
  by (simp_all add: signature_types_def signatures_def)

lemma DetectType_ContentType:
  "ContentType (DetectType sniff content filename) = DetectMIME sniff content"
  by (simp add: DetectType_def Let_def)

text \<open>
  Claim C10. For a content shorter than 16 bytes whose content sniff is
  \<open>application/octet-stream\<close> or \<open>text/plain; charset=utf-8\<close>, the \<open>ContentType\<close> that
  \<open>DetectType\<close> returns is the sniffed type (\<open>application/octet-stream\<close> for the empty
  content) and is none of the types of the signature table.
\<close>

theorem short_content_skips_signature_table:
  assumes "length content < 16"
    and "sniff content = ''application/octet-stream'' \<or> sniff content = ''text/plain; charset=utf-8''"
  shows "ContentType (DetectType sniff content filename) \<notin> set signature_types
     \<and> ContentType (DetectType sniff content filename) =
         (if content = [] then ''application/octet-stream'' else sniff content)"
proof -
  have "detectBySignature content = []" using assms(1) by (simp add: detectBySignature_def)
  then have "DetectMIME sniff content =
      (if content = [] then ''application/octet-stream'' else sniff content)"
    by (simp add: DetectMIME_def Let_def)
  then show ?thesis
    using assms(2) sniffed_not_signature_type by (auto simp: DetectType_ContentType)
qed

theorem short_content_skips_signature_table_witness:
  "length ''%PDF'' < 16 \<and> sniff0 ''%PDF'' = ''text/plain; charset=utf-8''
   \<and> ''application/pdf'' \<in> set signature_types
   \<and> ContentType (DetectType sniff0 ''%PDF'' []) = ''text/plain; charset=utf-8''
   \<and> ContentType (DetectType sniff0 ''%PDF'' []) \<notin> set signature_types"
proof -
  have l: "length ''%PDF'' < 16" by simp
  have s: "sniff0 ''%PDF'' = ''application/octet-stream'' \<or> sniff0 ''%PDF'' = ''text/plain; charset=utf-8''"
    by (simp add: sniff0_def)
  have p: "''application/pdf'' \<in> set signature_types"
    by (simp add: signature_types_def signatures_def)
  show ?thesis
    using short_content_skips_signature_table[of "''%PDF''" sniff0 "[]", OF l s] l p
      sniffed_not_signature_type(2)
    by (simp add: sniff0_def)
qed

text \<open>From 16 bytes on the same prefix is found in the table.\<close>

lemma long_content_uses_signature_table:
  "DetectMIME sniff0 ''%PDF0123456789ab'' = ''application/pdf''"
  by code_simp

end
